theory Spec2Isabelle
  imports Main "HOL-Library.Word"
begin

section \<open>JavaScript strings\<close>

text \<open>
  A JavaScript string is a sequence of 16-bit code units. The bullet of the source's regular
  expressions (U+2022) and the Unicode spaces that \<^verbatim>\<open>trim\<close> and \<^verbatim>\<open>\s\<close> remove
  do not fit in a byte, so the model keeps the code units. \<open>js\<close> writes an ASCII literal as
  such a string.
\<close>

type_synonym jschar = "16 word"
type_synonym jsstring = "jschar list"

definition js :: "string \<Rightarrow> jsstring" where
  "js s = map (\<lambda>c. of_nat (of_char c)) s"

text \<open>
  The code units that \<^verbatim>\<open>String.prototype.trim\<close>, the \<^verbatim>\<open>\s\<close> of a regular
  expression and the leading-space skip of \<^verbatim>\<open>parseInt\<close> treat as white space:
  TAB, LF, VT, FF, CR, SP, NBSP, U+1680, U+2000 to U+200A, LS, PS, U+202F, U+205F, U+3000
  and the byte order mark.
\<close>

definition isWhiteSpace :: "jschar \<Rightarrow> bool" where
  "isWhiteSpace c = (c \<in> set [0x09, 0x0A, 0x0B, 0x0C, 0x0D, 0x20, 0xA0, 0x1680,
     0x2000, 0x2001, 0x2002, 0x2003, 0x2004, 0x2005, 0x2006, 0x2007, 0x2008, 0x2009, 0x200A,
     0x2028, 0x2029, 0x202F, 0x205F, 0x3000, 0xFEFF])"

text \<open>\<^verbatim>\<open>\d\<close>: the ASCII digits 0 to 9.\<close>

definition isDigit :: "jschar \<Rightarrow> bool" where
  "isDigit c = (c \<in> set [0x30, 0x31, 0x32, 0x33, 0x34, 0x35, 0x36, 0x37, 0x38, 0x39])"

text \<open>\<^verbatim>\<open>s.trim()\<close>\<close>

definition trim :: "jsstring \<Rightarrow> jsstring" where
  "trim s = rev (dropWhile isWhiteSpace (rev (dropWhile isWhiteSpace s)))"

section \<open>normalizeItem\<close>

text \<open>
  \<^verbatim>\<open>s.replace(/^\d+\.|^[\-\<bullet>]\s*/, "")\<close>: the expression has no \<^verbatim>\<open>g\<close> flag and
  both alternatives are anchored, so at most one match, at the start, is removed. The first
  alternative is one or more digits followed by a period; the second a dash or a bullet
  followed by any white space.
\<close>

definition strip_marker :: "jsstring \<Rightarrow> jsstring" where
  "strip_marker s =
     (let ds = takeWhile isDigit s; r = dropWhile isDigit s in
      if ds \<noteq> [] \<and> r \<noteq> [] \<and> hd r = 0x2E then tl r
      else (case s of
          [] \<Rightarrow> s
        | c # r' \<Rightarrow> if c = 0x2D \<or> c = 0x2022 then dropWhile isWhiteSpace r' else s))"

definition normalizeItem :: "jsstring \<Rightarrow> jsstring" where
  "normalizeItem s = trim (strip_marker s)"

section \<open>JSON.parse\<close>

text \<open>
  \<^verbatim>\<open>JSON.parse\<close> is a built-in; the model follows the JSON grammar of the language
  standard: a lexer from code units to tokens, then a parser of the token list. A syntax
  error (the \<^verbatim>\<open>SyntaxError\<close> the source catches) is \<open>None\<close>. The caller only asks
  whether the value is an array and which of its elements are strings, so a number keeps no
  value.
\<close>

datatype json =
    JNull
  | JBool bool
  | JNumber
  | JString jsstring
  | JArray "json list"
  | JObject "(jsstring \<times> json) list"

datatype token =
    TLBracket | TRBracket | TLBrace | TRBrace | TComma | TColon
  | TString jsstring | TNumber | TTrue | TFalse | TNull

text \<open>JSON white space: TAB, LF, CR and SP only.\<close>

definition isJsonSpace :: "jschar \<Rightarrow> bool" where
  "isJsonSpace c = (c \<in> set [0x09, 0x0A, 0x0D, 0x20])"

definition hexval :: "jschar \<Rightarrow> nat option" where
  "hexval c = map_of
     [(0x30, 0), (0x31, 1), (0x32, 2), (0x33, 3), (0x34, 4),
      (0x35, 5), (0x36, 6), (0x37, 7), (0x38, 8), (0x39, 9),
      (0x41, 10), (0x42, 11), (0x43, 12), (0x44, 13), (0x45, 14), (0x46, 15),
      (0x61, 10), (0x62, 11), (0x63, 12), (0x64, 13), (0x65, 14), (0x66, 15)] c"

text \<open>The four hexadecimal digits of a \<^verbatim>\<open>\uXXXX\<close> escape.\<close>

definition hex4 :: "jschar \<Rightarrow> jschar \<Rightarrow> jschar \<Rightarrow> jschar \<Rightarrow> jschar option" where
  "hex4 a b c d =
     (case (hexval a, hexval b, hexval c, hexval d) of
        (Some x, Some y, Some z, Some w) \<Rightarrow> Some (of_nat (((x * 16 + y) * 16 + z) * 16 + w))
      | _ \<Rightarrow> None)"

text \<open>The single-character escapes: quote, backslash, slash, b, f, n, r, t.\<close>

definition escape :: "jschar \<Rightarrow> jschar option" where
  "escape c = map_of
     [(0x22, 0x22), (0x5C, 0x5C), (0x2F, 0x2F), (0x62, 0x08), (0x66, 0x0C),
      (0x6E, 0x0A), (0x72, 0x0D), (0x74, 0x09)] c"

text \<open>
  The body of a string literal, after its opening quote: the value (accumulated in reverse)
  and the text after the closing quote. A control character below U+0020, a bad escape or
  a missing closing quote is an error.
\<close>

fun lex_string :: "jsstring \<Rightarrow> jsstring \<Rightarrow> (jsstring \<times> jsstring) option" where
  "lex_string acc [] = None"
| "lex_string acc (c # cs) =
     (if c = 0x22 then Some (rev acc, cs)
      else if c = 0x5C then
        (case cs of
           [] \<Rightarrow> None
         | e # r \<Rightarrow>
             if e = 0x75 then
               (case r of
                  h1 # h2 # h3 # h4 # r' \<Rightarrow>
                    (case hex4 h1 h2 h3 h4 of
                       None \<Rightarrow> None
                     | Some u \<Rightarrow> lex_string (u # acc) r')
                | _ \<Rightarrow> None)
             else
               (case escape e of
                  None \<Rightarrow> None
                | Some u \<Rightarrow> lex_string (u # acc) r))
      else if c < 0x20 then None
      else lex_string (c # acc) cs)"

text \<open>
  A number: an optional minus, then 0 or a digit 1 to 9 with more digits, then an optional
  fraction (a period and at least one digit) and an optional exponent (e or E, an optional
  sign, at least one digit). \<open>lex_number c cs\<close> reads a number that starts with \<open>c\<close> and
  returns the text after it.
\<close>

definition frac_part :: "jsstring \<Rightarrow> jsstring" where
  "frac_part r =
     (case r of
        p # d # r' \<Rightarrow> if p = 0x2E \<and> isDigit d then dropWhile isDigit r' else r
      | _ \<Rightarrow> r)"

definition exp_digits :: "jsstring \<Rightarrow> jsstring \<Rightarrow> jsstring" where
  "exp_digits r t =
     (case t of
        d # t' \<Rightarrow> if isDigit d then dropWhile isDigit t' else r
      | [] \<Rightarrow> r)"

definition exp_part :: "jsstring \<Rightarrow> jsstring" where
  "exp_part r =
     (case r of
        e # r' \<Rightarrow>
          if e = 0x65 \<or> e = 0x45 then
            (case r' of
               s # t \<Rightarrow> if s = 0x2B \<or> s = 0x2D then exp_digits r t else exp_digits r r'
             | [] \<Rightarrow> r)
          else r
      | [] \<Rightarrow> r)"

definition int_part :: "jsstring \<Rightarrow> jsstring option" where
  "int_part s =
     (case s of
        [] \<Rightarrow> None
      | d # r \<Rightarrow>
          if d = 0x30 then Some (exp_part (frac_part r))
          else if isDigit d then Some (exp_part (frac_part (dropWhile isDigit r)))
          else None)"

definition lex_number :: "jschar \<Rightarrow> jsstring \<Rightarrow> jsstring option" where
  "lex_number c cs = (if c = 0x2D then int_part cs else int_part (c # cs))"

text \<open>The keywords \<^verbatim>\<open>true\<close>, \<^verbatim>\<open>false\<close> and \<^verbatim>\<open>null\<close>, after their first letter.\<close>

definition lex_keyword :: "jschar \<Rightarrow> jsstring \<Rightarrow> (token \<times> jsstring) option" where
  "lex_keyword c cs =
     (if c = 0x74 \<and> take 3 cs = [0x72, 0x75, 0x65] then Some (TTrue, drop 3 cs)
      else if c = 0x66 \<and> take 4 cs = [0x61, 0x6C, 0x73, 0x65] then Some (TFalse, drop 4 cs)
      else if c = 0x6E \<and> take 3 cs = [0x75, 0x6C, 0x6C] then Some (TNull, drop 3 cs)
      else None)"

text \<open>One token that starts with \<open>c\<close>, and the text after it.\<close>

definition lex_token :: "jschar \<Rightarrow> jsstring \<Rightarrow> (token \<times> jsstring) option" where
  "lex_token c cs =
     (if c = 0x5B then Some (TLBracket, cs)
      else if c = 0x5D then Some (TRBracket, cs)
      else if c = 0x7B then Some (TLBrace, cs)
      else if c = 0x7D then Some (TRBrace, cs)
      else if c = 0x2C then Some (TComma, cs)
      else if c = 0x3A then Some (TColon, cs)
      else if c = 0x22 then
        (case lex_string [] cs of None \<Rightarrow> None | Some (v, r) \<Rightarrow> Some (TString v, r))
      else if c = 0x2D \<or> isDigit c then
        (case lex_number c cs of None \<Rightarrow> None | Some r \<Rightarrow> Some (TNumber, r))
      else lex_keyword c cs)"

lemma frac_part_length: "length (frac_part r) \<le> length r"
  by (auto simp: frac_part_def split: list.splits
      intro: le_trans [OF length_dropWhile_le])

lemma exp_digits_length:
  "length (exp_digits r t) \<le> max (length r) (length t)"
proof (cases t)
  case Nil
  then show ?thesis by (simp add: exp_digits_def)
next
  case (Cons d t')
  have "length (dropWhile isDigit t') \<le> length t'"
    by (rule length_dropWhile_le)
  with Cons show ?thesis by (auto simp: exp_digits_def max_def)
qed

lemma exp_part_length: "length (exp_part r) \<le> length r"
proof -
  have a: "length (exp_digits r t) \<le> length r" if "length t \<le> length r" for t
    using exp_digits_length [of r t] that by (simp add: max_def)
  show ?thesis
  proof (cases r)
    case Nil
    then show ?thesis by (simp add: exp_part_def)
  next
    case (Cons e r')
    have b: "length (exp_digits r r') \<le> length r"
      by (rule a) (simp add: Cons)
    have c: "length (exp_digits r (tl r')) \<le> length r"
      by (rule a) (simp add: Cons)
    from Cons b c show ?thesis
      by (auto simp: exp_part_def split: list.splits)
  qed
qed

lemma int_part_length: "int_part s = Some r \<Longrightarrow> length r < length s"
proof (cases s)
  case Nil
  assume "int_part s = Some r"
  with Nil show ?thesis by (simp add: int_part_def)
next
  case (Cons d t)
  assume h: "int_part s = Some r"
  have a: "length (exp_part (frac_part t)) \<le> length t"
    by (rule le_trans [OF exp_part_length frac_part_length])
  have "length (exp_part (frac_part (dropWhile isDigit t))) \<le> length (dropWhile isDigit t)"
    by (rule le_trans [OF exp_part_length frac_part_length])
  then have b: "length (exp_part (frac_part (dropWhile isDigit t))) \<le> length t"
    by (rule le_trans) (rule length_dropWhile_le)
  from h Cons a b show ?thesis
    by (auto simp: int_part_def split: if_splits)
qed

lemma lex_number_length: "lex_number c cs = Some r \<Longrightarrow> length r \<le> length cs"
  by (auto simp: lex_number_def split: if_splits dest: int_part_length)

lemma lex_keyword_length: "lex_keyword c cs = Some (t, r) \<Longrightarrow> length r \<le> length cs"
  by (auto simp: lex_keyword_def split: if_splits)

lemma lex_string_length: "lex_string acc s = Some (v, r) \<Longrightarrow> length r < length s"
proof (induction acc s arbitrary: v r rule: lex_string.induct)
  case (1 acc)
  then show ?case by simp
next
  case (2 acc c cs)
  from "2.prems" "2.IH" show ?case
    by (simp split: if_splits list.splits option.splits) force+
qed

lemma lex_token_length: "lex_token c cs = Some (t, r) \<Longrightarrow> length r \<le> length cs"
  by (auto simp: lex_token_def split: if_splits option.splits
      dest: lex_string_length lex_number_length lex_keyword_length)

text \<open>The lexer: JSON white space between tokens is skipped; any other text is an error.\<close>

function lex :: "jsstring \<Rightarrow> token list option" where
  "lex [] = Some []"
| "lex (c # cs) =
     (if isJsonSpace c then lex cs
      else (case lex_token c cs of
          None \<Rightarrow> None
        | Some (t, r) \<Rightarrow> (case lex r of None \<Rightarrow> None | Some ts \<Rightarrow> Some (t # ts))))"
  by pat_completeness auto
termination
  by (relation "measure length") (auto dest: lex_token_length)

text \<open>
  The parser reads the token list with a stack of the arrays and objects that are still
  open. \<open>FArray es\<close> is an open array with the elements \<open>es\<close> read so far (in reverse),
  \<open>FObject ms\<close> an open object with its members so far, \<open>FMember ms k\<close> an open object
  that has read the key \<open>k\<close> and waits for its value. The mode says which tokens may
  come next.
\<close>

datatype frame =
    FArray "json list"
  | FObject "(jsstring \<times> json) list"
  | FMember "(jsstring \<times> json) list" jsstring

datatype pmode =
    WantValue
  | WantValueOrClose
  | WantKey
  | WantKeyOrClose
  | WantColon
  | WantCommaOrClose
  | Finished json

text \<open>A complete value goes to the innermost open container, or is the result.\<close>

fun deliver :: "json \<Rightarrow> frame list \<Rightarrow> (frame list \<times> pmode) option" where
  "deliver v [] = Some ([], Finished v)"
| "deliver v (FArray es # st) = Some (FArray (v # es) # st, WantCommaOrClose)"
| "deliver v (FMember ms k # st) = Some (FObject ((k, v) # ms) # st, WantCommaOrClose)"
| "deliver v (FObject ms # st) = None"

fun close_array :: "frame list \<Rightarrow> (frame list \<times> pmode) option" where
  "close_array (FArray es # st) = deliver (JArray (rev es)) st"
| "close_array _ = None"

fun close_object :: "frame list \<Rightarrow> (frame list \<times> pmode) option" where
  "close_object (FObject ms # st) = deliver (JObject (rev ms)) st"
| "close_object _ = None"

fun start_value :: "frame list \<Rightarrow> token \<Rightarrow> (frame list \<times> pmode) option" where
  "start_value st (TString s) = deliver (JString s) st"
| "start_value st TNumber = deliver JNumber st"
| "start_value st TTrue = deliver (JBool True) st"
| "start_value st TFalse = deliver (JBool False) st"
| "start_value st TNull = deliver JNull st"
| "start_value st TLBracket = Some (FArray [] # st, WantValueOrClose)"
| "start_value st TLBrace = Some (FObject [] # st, WantKeyOrClose)"
| "start_value st _ = None"

fun start_key :: "frame list \<Rightarrow> token \<Rightarrow> (frame list \<times> pmode) option" where
  "start_key (FObject ms # st) (TString k) = Some (FMember ms k # st, WantColon)"
| "start_key _ _ = None"

fun after_value :: "frame list \<Rightarrow> token \<Rightarrow> (frame list \<times> pmode) option" where
  "after_value (FArray es # st) TComma = Some (FArray es # st, WantValue)"
| "after_value (FObject ms # st) TComma = Some (FObject ms # st, WantKey)"
| "after_value st TRBracket = close_array st"
| "after_value st TRBrace = close_object st"
| "after_value _ _ = None"

fun pstep :: "frame list \<Rightarrow> pmode \<Rightarrow> token \<Rightarrow> (frame list \<times> pmode) option" where
  "pstep st WantValue t = start_value st t"
| "pstep st WantValueOrClose t = (if t = TRBracket then close_array st else start_value st t)"
| "pstep st WantKey t = start_key st t"
| "pstep st WantKeyOrClose t = (if t = TRBrace then close_object st else start_key st t)"
| "pstep st WantColon t = (if t = TColon then Some (st, WantValue) else None)"
| "pstep st WantCommaOrClose t = after_value st t"
| "pstep st (Finished v) t = None"

fun parse_tokens :: "frame list \<Rightarrow> pmode \<Rightarrow> token list \<Rightarrow> json option" where
  "parse_tokens st (Finished v) [] = Some v"
| "parse_tokens st m [] = None"
| "parse_tokens st m (t # ts) =
     (case pstep st m t of
        None \<Rightarrow> None
      | Some (st', m') \<Rightarrow> parse_tokens st' m' ts)"

definition JSON_parse :: "jsstring \<Rightarrow> json option" where
  "JSON_parse text =
     (case lex text of None \<Rightarrow> None | Some ts \<Rightarrow> parse_tokens [] WantValue ts)"

section \<open>coerceToStringArray\<close>

text \<open>\<^verbatim>\<open>parsed.filter((v) => typeof v === "string")\<close>\<close>

fun string_elements :: "json list \<Rightarrow> jsstring list" where
  "string_elements [] = []"
| "string_elements (JString s # vs) = s # string_elements vs"
| "string_elements (_ # vs) = string_elements vs"

text \<open>
  One attempt of the source: parse, and if the value is an array keep its strings,
  normalized. \<open>None\<close> when the parse throws or the value is not an array: the source then
  goes on to its next attempt.
\<close>

definition array_items :: "jsstring \<Rightarrow> jsstring list option" where
  "array_items text =
     (case JSON_parse text of
        Some (JArray vs) \<Rightarrow> Some (map normalizeItem (string_elements vs))
      | _ \<Rightarrow> None)"

text \<open>
  \<^verbatim>\<open>text.match(/\[[\s\S]*\]/)\<close>: the match starts at the first opening bracket and, the
  star being greedy, ends at the last closing bracket after it.
\<close>

definition bracket_match :: "jsstring \<Rightarrow> jsstring option" where
  "bracket_match text =
     (case dropWhile (\<lambda>c. c \<noteq> 0x5B) text of
        [] \<Rightarrow> None
      | b # r \<Rightarrow>
          if 0x5D \<in> set r then Some (b # rev (dropWhile (\<lambda>c. c \<noteq> 0x5D) (rev r)))
          else None)"

text \<open>
  \<^verbatim>\<open>text.split(/\r?\n|\<bullet>|-\s+/)\<close>. \<open>separator c cs\<close> matches the expression at a
  position whose text is \<open>c # cs\<close> and returns the text after the match: a line feed, a
  carriage return and a line feed, a bullet, or a dash with at least one white space (all of
  it, the plus being greedy). \<open>split_from\<close> is the loop of the built-in: at each position
  try the separator; on a match close the current fragment and go on after the match. The
  text after the last separator is always a fragment, empty or not.
\<close>

definition separator :: "jschar \<Rightarrow> jsstring \<Rightarrow> jsstring option" where
  "separator c cs =
     (if c = 0x0D \<and> cs \<noteq> [] \<and> hd cs = 0x0A then Some (tl cs)
      else if c = 0x0A then Some cs
      else if c = 0x2022 then Some cs
      else if c = 0x2D \<and> cs \<noteq> [] \<and> isWhiteSpace (hd cs) then Some (dropWhile isWhiteSpace cs)
      else None)"

lemma separator_length: "separator c cs = Some r \<Longrightarrow> length r \<le> length cs"
  by (auto simp: separator_def length_dropWhile_le split: if_splits)

function split_from :: "jsstring \<Rightarrow> jsstring \<Rightarrow> jsstring list" where
  "split_from cur [] = [rev cur]"
| "split_from cur (c # cs) =
     (case separator c cs of
        Some r \<Rightarrow> rev cur # split_from [] r
      | None \<Rightarrow> split_from (c # cur) cs)"
  by pat_completeness auto
termination
  by (relation "measure (\<lambda>(cur, s). length s)") (auto dest: separator_length)

definition split_lines :: "jsstring \<Rightarrow> jsstring list" where
  "split_lines text = split_from [] text"

text \<open>The fallback of the source: split, trim, drop the empty strings, normalize, keep 10.\<close>

definition fallback_items :: "jsstring \<Rightarrow> jsstring list" where
  "fallback_items text =
     take 10 (map normalizeItem (filter (\<lambda>s. s \<noteq> []) (map trim (split_lines text))))"

definition coerceToStringArray :: "jsstring \<Rightarrow> jsstring list" where
  "coerceToStringArray text =
     (case array_items text of
        Some xs \<Rightarrow> xs
      | None \<Rightarrow>
          (case bracket_match text of
             None \<Rightarrow> fallback_items text
           | Some m \<Rightarrow>
               (case array_items m of
                  Some xs \<Rightarrow> xs
                | None \<Rightarrow> fallback_items text)))"

section \<open>Number.parseInt\<close>

text \<open>
  The numbers the handler computes with are the results of \<^verbatim>\<open>Number.parseInt(s, 10)\<close>:
  not-a-number, an integer that a double holds, or an infinity. Negative zero is \<open>Number 0\<close>:
  the handler compares it with 0, uses it as a \<^verbatim>\<open>Map\<close> key and prints it in a JSON
  body, and none of the three tells it from zero.
\<close>

datatype jsnumber = NaN | Number int | PosInfinity | NegInfinity

definition digits_value :: "jsstring \<Rightarrow> int" where
  "digits_value z = foldl (\<lambda>a d. 10 * a + (uint d - 48)) 0 z"

function bit_length :: "int \<Rightarrow> nat" where
  "bit_length n = (if n \<le> 0 then 0 else Suc (bit_length (n div 2)))"
  by pat_completeness auto
termination
  by (relation "measure nat") auto

text \<open>
  The double nearest to a natural number \<open>n\<close>, ties to the even significand of 53 bits;
  \<open>None\<close> when the rounded value is \<open>2 ^ 1024\<close> or more, which is \<^verbatim>\<open>Infinity\<close>.
\<close>

definition round_to_double :: "int \<Rightarrow> int option" where
  "round_to_double n =
     (if n < 2 ^ 53 then Some n
      else
        (let e = bit_length n - 53;
             q = n div 2 ^ e;
             r = n mod 2 ^ e;
             h = 2 ^ (e - 1);
             q' = (if h < r \<or> (r = h \<and> odd q) then q + 1 else q);
             v = q' * 2 ^ e
         in if v < 2 ^ 1024 then Some v else None))"

text \<open>
  \<^verbatim>\<open>Number.parseInt(input, 10)\<close>: skip leading white space, take a sign, then the
  longest run of decimal digits; the rest of the text is ignored. No digit gives
  \<^verbatim>\<open>NaN\<close>.
\<close>

definition parseInt10 :: "jsstring \<Rightarrow> jsnumber" where
  "parseInt10 input =
     (let s = dropWhile isWhiteSpace input;
          neg = (s \<noteq> [] \<and> hd s = 0x2D);
          s' = (if s \<noteq> [] \<and> (hd s = 0x2B \<or> hd s = 0x2D) then tl s else s);
          z = takeWhile isDigit s'
      in if z = [] then NaN
         else (case round_to_double (digits_value z) of
             None \<Rightarrow> if neg then NegInfinity else PosInfinity
           | Some v \<Rightarrow> Number (if neg then - v else v)))"

section \<open>The lookup service: GET\<close>

record CachedYear =
  at :: int
  items :: "jsstring list"

text \<open>\<^verbatim>\<open>YEAR_CACHE\<close>, a \<^verbatim>\<open>Map<number, CachedYear>\<close>.\<close>

type_synonym year_cache = "int \<rightharpoonup> CachedYear"

definition CACHE_TTL_MS :: int where
  "CACHE_TTL_MS = 1000 * 60 * 60 * 24 * 7"

text \<open>
  The request as the handler reads it: the values of the query parameters \<^verbatim>\<open>year\<close> and
  \<^verbatim>\<open>force\<close>, \<open>None\<close> for the \<^verbatim>\<open>null\<close> of a missing parameter.
\<close>

record request =
  yearParam :: "jsstring option"
  forceParam :: "jsstring option"

text \<open>What the handler reads from its surroundings: \<^verbatim>\<open>Date.now()\<close> and
  \<^verbatim>\<open>process.env.GEMINI_API_KEY\<close> (\<open>None\<close> when the variable is unset).\<close>

record environment =
  now :: int
  apiKey :: "jsstring option"

text \<open>
  What the upstream call does: \<open>Rejects\<close> when \<^verbatim>\<open>fetch\<close>, \<^verbatim>\<open>response.text()\<close> or
  \<^verbatim>\<open>response.json()\<close> throws; \<open>NotOk detail\<close> for a response that is not ok, with its
  text; \<open>Ok rawText\<close> for an ok response, with the value of
  \<^verbatim>\<open>data?.candidates?.[0]?.content?.parts?.[0]?.text\<close>, which the source declares as
  \<^verbatim>\<open>string | undefined\<close>.
\<close>

datatype upstream = Rejects | NotOk jsstring | Ok "jsstring option"

datatype body =
    Highlights int "jsstring list"
  | Error string
  | ErrorDetail string jsstring

record response =
  status :: nat
  body :: body
  cacheControl :: "string option"

text \<open>The request sent upstream: the year of the prompt and the key of the header.\<close>

record fetch_call =
  promptYear :: int
  keyHeader :: jsstring

text \<open>
  The result of one run of the handler: the response, the cache it leaves, and the upstream
  call it made, if any.
\<close>

record outcome =
  reply :: response
  cacheAfter :: year_cache
  upstreamCall :: "fetch_call option"

definition error_response :: "nat \<Rightarrow> string \<Rightarrow> response" where
  "error_response code msg = \<lparr>status = code, body = Error msg, cacheControl = None\<rparr>"

definition items_response :: "int \<Rightarrow> jsstring list \<Rightarrow> response" where
  "items_response year its =
     \<lparr>status = 200, body = Highlights year its,
      cacheControl = Some ''public, max-age=0, s-maxage=86400''\<rparr>"

text \<open>
  The handler from the credential check on (source lines 33 to 84), for a valid year that
  was not served from the cache.
\<close>

definition refresh :: "environment \<Rightarrow> upstream \<Rightarrow> year_cache \<Rightarrow> int \<Rightarrow> outcome" where
  "refresh env up cache year =
     (case apiKey env of
        None \<Rightarrow>
          \<lparr>reply = error_response 500 ''Server missing GEMINI_API_KEY'',
           cacheAfter = cache, upstreamCall = None\<rparr>
      | Some key \<Rightarrow>
          if key = [] then
            \<lparr>reply = error_response 500 ''Server missing GEMINI_API_KEY'',
             cacheAfter = cache, upstreamCall = None\<rparr>
          else
            (let call = Some \<lparr>promptYear = year, keyHeader = key\<rparr> in
             case up of
               Rejects \<Rightarrow>
                 \<lparr>reply = error_response 500 ''Unexpected server error'',
                  cacheAfter = cache, upstreamCall = call\<rparr>
             | NotOk detail \<Rightarrow>
                 \<lparr>reply = \<lparr>status = 502, body = ErrorDetail ''Upstream error'' detail,
                            cacheControl = None\<rparr>,
                  cacheAfter = cache, upstreamCall = call\<rparr>
             | Ok None \<Rightarrow>
                 \<lparr>reply = error_response 502 ''No content returned'',
                  cacheAfter = cache, upstreamCall = call\<rparr>
             | Ok (Some rawText) \<Rightarrow>
                 if rawText = [] then
                   \<lparr>reply = error_response 502 ''No content returned'',
                    cacheAfter = cache, upstreamCall = call\<rparr>
                 else
                   (let its = take 5 (coerceToStringArray rawText) in
                    if length its = 0 then
                      \<lparr>reply = error_response 502 ''Empty content'',
                       cacheAfter = cache, upstreamCall = call\<rparr>
                    else
                      \<lparr>reply = items_response year its,
                       cacheAfter = cache(year \<mapsto> \<lparr>at = now env, items = its\<rparr>),
                       upstreamCall = call\<rparr>)))"

text \<open>
  \<^verbatim>\<open>Number.parseInt(yearParam ?? "", 10)\<close> and
  \<^verbatim>\<open>forceParam === "1" || forceParam === "true"\<close>.
\<close>

definition requested_year :: "request \<Rightarrow> jsnumber" where
  "requested_year req = parseInt10 (case yearParam req of None \<Rightarrow> [] | Some s \<Rightarrow> s)"

definition forced :: "request \<Rightarrow> bool" where
  "forced req = (forceParam req = Some (js ''1'') \<or> forceParam req = Some (js ''true''))"

text \<open>
  The handler. The first test is \<^verbatim>\<open>!Number.isFinite(year) || year < 0\<close>; the second
  the cache hit, where an entry that is present is always truthy. The handler reads the
  cache once, before it awaits the upstream call, and writes it at most once, after; \<open>GET\<close>
  is one run of the handler from the cache it finds to the cache it leaves, with no other
  request in between.
\<close>

definition GET :: "environment \<Rightarrow> upstream \<Rightarrow> year_cache \<Rightarrow> request \<Rightarrow> outcome" where
  "GET env up cache req =
     (let invalid =
            \<lparr>reply = error_response 400 ''Invalid or missing year'',
             cacheAfter = cache, upstreamCall = None\<rparr>
      in case requested_year req of
           Number y \<Rightarrow>
             if y < 0 then invalid
             else
               (case cache y of
                  Some cached \<Rightarrow>
                    if \<not> forced req \<and> now env - at cached < CACHE_TTL_MS then
                      \<lparr>reply = items_response y (items cached),
                       cacheAfter = cache, upstreamCall = None\<rparr>
                    else refresh env up cache y
                | None \<Rightarrow> refresh env up cache y)
         | _ \<Rightarrow> invalid)"

text \<open>
  Requests served one after the other, each on the cache the one before left: the outcomes,
  in order.
\<close>

fun serve :: "year_cache \<Rightarrow> (environment \<times> upstream \<times> request) list \<Rightarrow> outcome list" where
  "serve cache [] = []"
| "serve cache ((env, up, req) # rest) =
     (let out = GET env up cache req in out # serve (cacheAfter out) rest)"

section \<open>The fetch client: the Achievement component\<close>

datatype fetch_status = Idle | Loading | Failed | Success

text \<open>
  One run of the effect: the year it was started for, its \<^verbatim>\<open>isCurrent\<close> flag, and
  where its asynchronous function stands.
\<close>

datatype stage = AwaitFetch | AwaitJson | Settled

record effect_run =
  runYear :: int
  isCurrent :: bool
  stage :: stage

text \<open>
  The component: the \<^verbatim>\<open>year\<close> property of the last render, the two state variables,
  the client cache behind \<^verbatim>\<open>cacheRef\<close>, and every run of the effect so far, the latest
  last.
\<close>

record component =
  yearProp :: int
  shownItems :: "jsstring list"
  shownStatus :: fetch_status
  cacheRef :: "int \<rightharpoonup> jsstring list"
  runs :: "effect_run list"

text \<open>
  The body of the effect up to its first \<^verbatim>\<open>await\<close>: a non-empty client cache entry is
  shown at once, otherwise the state goes to loading and the request leaves.
\<close>

definition start_effect :: "int \<Rightarrow> component \<Rightarrow> component" where
  "start_effect y s =
     (case cacheRef s y of
        Some cached \<Rightarrow>
          if length cached > 0 then
            s\<lparr>shownItems := cached, shownStatus := Success,
              runs := runs s @ [\<lparr>runYear = y, isCurrent = True, stage = Settled\<rparr>]\<rparr>
          else
            s\<lparr>shownStatus := Loading, shownItems := [],
              runs := runs s @ [\<lparr>runYear = y, isCurrent = True, stage = AwaitFetch\<rparr>]\<rparr>
      | None \<Rightarrow>
          s\<lparr>shownStatus := Loading, shownItems := [],
            runs := runs s @ [\<lparr>runYear = y, isCurrent = True, stage = AwaitFetch\<rparr>]\<rparr>)"

text \<open>The cleanup the latest run returned: \<^verbatim>\<open>isCurrent = false\<close>.\<close>

definition cleanup :: "component \<Rightarrow> component" where
  "cleanup s =
     (if runs s = [] then s
      else s\<lparr>runs := (runs s)[length (runs s) - 1 := (last (runs s))\<lparr>isCurrent := False\<rparr>]\<rparr>)"

definition mount :: "int \<Rightarrow> component" where
  "mount y =
     start_effect y
       \<lparr>yearProp = y, shownItems = [], shownStatus = Idle, cacheRef = Map.empty, runs = []\<rparr>"

datatype fetch_result = FetchRejected | FetchResponse bool

datatype json_result = JsonRejected | JsonData "jsstring list option"

text \<open>
  What can happen to a mounted component: a render with a year (\<^verbatim>\<open>useEffect\<close> runs the
  cleanup and the effect again only when the year differs from the last one), the
  \<^verbatim>\<open>fetch\<close> of run \<open>i\<close> settling (rejected, or a response with its \<^verbatim>\<open>ok\<close> flag),
  and the \<^verbatim>\<open>res.json()\<close> of run \<open>i\<close> settling (rejected, or data whose \<^verbatim>\<open>items\<close>
  is an array or not).
\<close>

datatype event =
    Render int
  | FetchSettles nat fetch_result
  | JsonSettles nat json_result

definition settle :: "nat \<Rightarrow> component \<Rightarrow> component" where
  "settle i s = s\<lparr>runs := (runs s)[i := (runs s ! i)\<lparr>stage := Settled\<rparr>]\<rparr>"

text \<open>The \<^verbatim>\<open>catch\<close> block of run \<open>i\<close>.\<close>

definition on_catch :: "nat \<Rightarrow> component \<Rightarrow> component" where
  "on_catch i s =
     (if \<not> isCurrent (runs s ! i) then settle i s
      else settle i (s\<lparr>shownStatus := Failed\<rparr>))"

text \<open>The code of run \<open>i\<close> after \<^verbatim>\<open>await res.json()\<close>.\<close>

definition on_data :: "nat \<Rightarrow> jsstring list option \<Rightarrow> component \<Rightarrow> component" where
  "on_data i d s =
     (if \<not> isCurrent (runs s ! i) then settle i s
      else
        (let nextItems = (case d of Some xs \<Rightarrow> xs | None \<Rightarrow> []) in
         settle i
           (s\<lparr>cacheRef := (cacheRef s)(runYear (runs s ! i) \<mapsto> nextItems),
              shownItems := nextItems, shownStatus := Success\<rparr>)))"

definition step :: "component \<Rightarrow> event \<Rightarrow> component" where
  "step s ev =
     (case ev of
        Render y \<Rightarrow>
          if y = yearProp s then s else start_effect y ((cleanup s)\<lparr>yearProp := y\<rparr>)
      | FetchSettles i r \<Rightarrow>
          if i < length (runs s) \<and> stage (runs s ! i) = AwaitFetch then
            (case r of
               FetchResponse True \<Rightarrow>
                 s\<lparr>runs := (runs s)[i := (runs s ! i)\<lparr>stage := AwaitJson\<rparr>]\<rparr>
             | _ \<Rightarrow> on_catch i s)
          else s
      | JsonSettles i r \<Rightarrow>
          if i < length (runs s) \<and> stage (runs s ! i) = AwaitJson then
            (case r of
               JsonRejected \<Rightarrow> on_catch i s
             | JsonData d \<Rightarrow> on_data i d s)
          else s)"

text \<open>The component after a sequence of events.\<close>

definition run_events :: "component \<Rightarrow> event list \<Rightarrow> component" where
  "run_events s evs = foldl step s evs"

text \<open>What the user sees and what later lookups read: the items, the status, the client cache.\<close>

definition visible :: "component \<Rightarrow> jsstring list \<times> fetch_status \<times> (int \<rightharpoonup> jsstring list)" where
  "visible s = (shownItems s, shownStatus s, cacheRef s)"

section \<open>Predicates of the statements\<close>

text \<open>
  The request is answered by the cache-hit return of the handler: the year is valid, the
  cache has an entry for it younger than the time to live, and the request does not force
  a refresh.
\<close>

definition served_from_cache :: "environment \<Rightarrow> year_cache \<Rightarrow> request \<Rightarrow> bool" where
  "served_from_cache env cache req =
     (case requested_year req of
        Number y \<Rightarrow>
          (case cache y of
             Some cached \<Rightarrow> 0 \<le> y \<and> \<not> forced req \<and> now env - at cached < CACHE_TTL_MS
           | None \<Rightarrow> False)
      | _ \<Rightarrow> False)"

text \<open>An entry, a cache and a response whose list of items has 1 to 5 elements.\<close>

definition entry_bounded :: "CachedYear \<Rightarrow> bool" where
  "entry_bounded e = (1 \<le> length (items e) \<and> length (items e) \<le> 5)"

definition cache_bounded :: "year_cache \<Rightarrow> bool" where
  "cache_bounded cache = (\<forall>y e. cache y = Some e \<longrightarrow> entry_bounded e)"

definition reply_bounded :: "response \<Rightarrow> bool" where
  "reply_bounded r =
     (status r = 200 \<longrightarrow>
        (case body r of
           Highlights y its \<Rightarrow> 1 \<le> length its \<and> length its \<le> 5
         | _ \<Rightarrow> False))"

text \<open>
  The year parameter fails the test of the handler: after leading white space and an
  optional sign the text has no leading decimal digit (a missing parameter is the empty
  text), or its leading digits are too many for a finite number, or the sign is a minus and
  the digits are not all zero.
\<close>

definition year_rejected :: "jsstring option \<Rightarrow> bool" where
  "year_rejected p =
     (let s = dropWhile isWhiteSpace (case p of None \<Rightarrow> [] | Some t \<Rightarrow> t);
          minus = (s \<noteq> [] \<and> hd s = 0x2D);
          signed = (s \<noteq> [] \<and> (hd s = 0x2B \<or> hd s = 0x2D));
          z = takeWhile isDigit (if signed then tl s else s)
      in z = [] \<or> round_to_double (digits_value z) = None \<or> (minus \<and> digits_value z \<noteq> 0))"

text \<open>
  Only the latest run of the effect can have its \<^verbatim>\<open>isCurrent\<close> flag set, and then
  it is the run for the year the component shows.
\<close>

definition only_latest_current :: "component \<Rightarrow> bool" where
  "only_latest_current s =
     (\<forall>i < length (runs s). isCurrent (runs s ! i) \<longrightarrow>
        Suc i = length (runs s) \<and> runYear (runs s ! i) = yearProp s)"

text \<open>
  The second attempt as the claim words it, "the first bracket-delimited substring": the
  text from the first opening bracket to the first closing bracket after it. It stands
  beside \<open>bracket_match\<close>, which is what the source's expression matches.
\<close>

definition first_bracketed :: "jsstring \<Rightarrow> jsstring option" where
  "first_bracketed s =
     (case dropWhile (\<lambda>c. c \<noteq> 0x5B) s of
        [] \<Rightarrow> None
      | b # r \<Rightarrow>
          if 0x5D \<in> set r then Some (b # takeWhile (\<lambda>c. c \<noteq> 0x5D) r @ [0x5D])
          else None)"

section \<open>The handler, path by path\<close>

lemma GET_valid:
  assumes "requested_year req = Number y" and "0 \<le> y"
  shows "GET env up cache req =
    (case cache y of
       Some cached \<Rightarrow>
         if \<not> forced req \<and> now env - at cached < CACHE_TTL_MS then
           \<lparr>reply = items_response y (items cached), cacheAfter = cache, upstreamCall = None\<rparr>
         else refresh env up cache y
     | None \<Rightarrow> refresh env up cache y)"
  using assms by (simp add: GET_def)

lemma GET_hit:
  assumes "requested_year req = Number y" and "0 \<le> y"
    and "cache y = Some cached" and "now env - at cached < CACHE_TTL_MS"
    and "\<not> forced req"
  shows "GET env up cache req =
    \<lparr>reply = items_response y (items cached), cacheAfter = cache, upstreamCall = None\<rparr>"
  using assms by (simp add: GET_valid)

lemma GET_refresh:
  assumes "requested_year req = Number y" and "0 \<le> y"
    and "forced req \<or> cache y = None \<or>
         (\<exists>cached. cache y = Some cached \<and> \<not> now env - at cached < CACHE_TTL_MS)"
  shows "GET env up cache req = refresh env up cache y"
  using assms by (auto simp: GET_valid split: option.splits)

lemma GET_invalid:
  "(case requested_year req of Number y \<Rightarrow> y < 0 | _ \<Rightarrow> True) \<Longrightarrow>
   GET env up cache req =
     \<lparr>reply = error_response 400 ''Invalid or missing year'', cacheAfter = cache, upstreamCall = None\<rparr>"
  by (auto simp: GET_def split: jsnumber.splits)

lemma GET_cases:
  "(\<not> (\<exists>y. requested_year req = Number y \<and> 0 \<le> y) \<and>
      GET env up cache req =
        \<lparr>reply = error_response 400 ''Invalid or missing year'', cacheAfter = cache, upstreamCall = None\<rparr>)
   \<or> (\<exists>y cached. requested_year req = Number y \<and> 0 \<le> y \<and> cache y = Some cached \<and>
        \<not> forced req \<and> now env - at cached < CACHE_TTL_MS \<and>
        GET env up cache req =
          \<lparr>reply = items_response y (items cached), cacheAfter = cache, upstreamCall = None\<rparr>)
   \<or> (\<exists>y. requested_year req = Number y \<and> 0 \<le> y \<and>
        GET env up cache req = refresh env up cache y)"
proof (cases "\<exists>y. requested_year req = Number y \<and> 0 \<le> y")
  case False
  then have "case requested_year req of Number y \<Rightarrow> y < 0 | _ \<Rightarrow> True"
    by (auto split: jsnumber.splits)
  with False show ?thesis by (simp add: GET_invalid)
next
  case True
  then obtain y where y: "requested_year req = Number y" "0 \<le> y" by blast
  show ?thesis
  proof (cases "\<exists>cached. cache y = Some cached \<and> \<not> forced req \<and>
      now env - at cached < CACHE_TTL_MS")
    case True
    then obtain cached where "cache y = Some cached" "\<not> forced req"
      "now env - at cached < CACHE_TTL_MS" by blast
    with y GET_hit [of req y cache cached env up] show ?thesis by blast
  next
    case False
    then have "forced req \<or> cache y = None \<or>
         (\<exists>cached. cache y = Some cached \<and> \<not> now env - at cached < CACHE_TTL_MS)"
      by (cases "cache y") auto
    with y GET_refresh [of req y cache env up] show ?thesis by blast
  qed
qed

lemma refresh_no_key:
  "apiKey env = None \<Longrightarrow>
    refresh env up cache y =
      \<lparr>reply = error_response 500 ''Server missing GEMINI_API_KEY'',
       cacheAfter = cache, upstreamCall = None\<rparr>"
  by (simp add: refresh_def)

lemma refresh_reply_cache_free:
  "reply (refresh env up cache y) = reply (refresh env up cache' y) \<and>
   upstreamCall (refresh env up cache y) = upstreamCall (refresh env up cache' y)"
  by (simp add: refresh_def Let_def split: option.splits upstream.splits)

lemma refresh_calls:
  "apiKey env = Some key \<Longrightarrow> key \<noteq> [] \<Longrightarrow>
   upstreamCall (refresh env up cache y) = Some \<lparr>promptYear = y, keyHeader = key\<rparr>"
  by (simp add: refresh_def Let_def split: option.splits upstream.splits)

lemma refresh_success:
  "apiKey env = Some key \<Longrightarrow> key \<noteq> [] \<Longrightarrow> rawText \<noteq> [] \<Longrightarrow>
   take 5 (coerceToStringArray rawText) \<noteq> [] \<Longrightarrow>
   refresh env (Ok (Some rawText)) cache y =
     \<lparr>reply = items_response y (take 5 (coerceToStringArray rawText)),
      cacheAfter = cache(y \<mapsto> \<lparr>at = now env, items = take 5 (coerceToStringArray rawText)\<rparr>),
      upstreamCall = Some \<lparr>promptYear = y, keyHeader = key\<rparr>\<rparr>"
  by (simp add: refresh_def Let_def)

lemma refresh_no_content:
  "apiKey env = Some key \<Longrightarrow> key \<noteq> [] \<Longrightarrow> up = Ok None \<or> up = Ok (Some []) \<Longrightarrow>
   refresh env up cache y =
     \<lparr>reply = error_response 502 ''No content returned'', cacheAfter = cache,
      upstreamCall = Some \<lparr>promptYear = y, keyHeader = key\<rparr>\<rparr>"
  by (auto simp: refresh_def)

lemma refresh_empty_content:
  "apiKey env = Some key \<Longrightarrow> key \<noteq> [] \<Longrightarrow> rawText \<noteq> [] \<Longrightarrow>
   coerceToStringArray rawText = [] \<Longrightarrow>
   refresh env (Ok (Some rawText)) cache y =
     \<lparr>reply = error_response 502 ''Empty content'', cacheAfter = cache,
      upstreamCall = Some \<lparr>promptYear = y, keyHeader = key\<rparr>\<rparr>"
  by (simp add: refresh_def)

lemma refresh_200:
  assumes "status (reply (refresh env up cache y)) = 200"
  shows "\<exists>its. its \<noteq> [] \<and> length its \<le> 5 \<and>
     refresh env up cache y =
       \<lparr>reply = items_response y its,
        cacheAfter = cache(y \<mapsto> \<lparr>at = now env, items = its\<rparr>),
        upstreamCall = Some \<lparr>promptYear = y, keyHeader = the (apiKey env)\<rparr>\<rparr>"
proof -
  from assms obtain key rawText where k: "apiKey env = Some key" "key \<noteq> []"
    and u: "up = Ok (Some rawText)" "rawText \<noteq> []"
    and i: "take 5 (coerceToStringArray rawText) \<noteq> []"
    by (auto simp: refresh_def Let_def error_response_def
        split: option.splits upstream.splits if_splits)
  let ?its = "take 5 (coerceToStringArray rawText)"
  have "refresh env up cache y =
       \<lparr>reply = items_response y ?its,
        cacheAfter = cache(y \<mapsto> \<lparr>at = now env, items = ?its\<rparr>),
        upstreamCall = Some \<lparr>promptYear = y, keyHeader = the (apiKey env)\<rparr>\<rparr>"
    using k u i by (simp add: refresh_success)
  moreover have "length ?its \<le> 5" by simp
  ultimately show ?thesis using i by blast
qed

lemma refresh_not_200:
  "status (reply (refresh env up cache y)) \<noteq> 200 \<Longrightarrow> cacheAfter (refresh env up cache y) = cache"
  by (auto simp: refresh_def Let_def items_response_def split: option.splits upstream.splits if_splits)

lemma refresh_status: "status (reply (refresh env up cache y)) \<noteq> 400"
  by (simp add: refresh_def Let_def error_response_def items_response_def
      split: option.splits upstream.splits)

lemma GET_bounded:
  assumes "cache_bounded cache"
  shows "cache_bounded (cacheAfter (GET env up cache req)) \<and>
         reply_bounded (reply (GET env up cache req))"
proof -
  consider
    (invalid) "GET env up cache req =
        \<lparr>reply = error_response 400 ''Invalid or missing year'', cacheAfter = cache, upstreamCall = None\<rparr>"
  | (hit) y cached where "cache y = Some cached"
      "GET env up cache req =
          \<lparr>reply = items_response y (items cached), cacheAfter = cache, upstreamCall = None\<rparr>"
  | (refresh) y where "GET env up cache req = refresh env up cache y"
    using GET_cases [of req env up cache] by blast
  then show ?thesis
  proof cases
    case invalid
    with assms show ?thesis by (simp add: reply_bounded_def error_response_def)
  next
    case (hit y cached)
    from assms hit(1) have "entry_bounded cached" by (auto simp: cache_bounded_def)
    with assms hit(2) show ?thesis
      by (simp add: reply_bounded_def items_response_def entry_bounded_def)
  next
    case (refresh y)
    show ?thesis
    proof (cases "status (reply (refresh env up cache y)) = 200")
      case True
      from refresh_200 [OF True] obtain its where its: "its \<noteq> []" "length its \<le> 5"
        "refresh env up cache y =
           \<lparr>reply = items_response y its,
            cacheAfter = cache(y \<mapsto> \<lparr>at = now env, items = its\<rparr>),
            upstreamCall = Some \<lparr>promptYear = y, keyHeader = the (apiKey env)\<rparr>\<rparr>"
        by blast
      from its(1) have "1 \<le> length its" by (cases its) simp_all
      with assms its refresh show ?thesis
        by (auto simp: cache_bounded_def reply_bounded_def items_response_def entry_bounded_def)
    next
      case False
      with assms refresh refresh_not_200 [OF False] show ?thesis
        by (simp add: reply_bounded_def)
    qed
  qed
qed

lemma serve_bounded:
  "cache_bounded cache \<Longrightarrow> out \<in> set (serve cache calls) \<Longrightarrow>
   cache_bounded (cacheAfter out) \<and> reply_bounded (reply out)"
proof (induction calls arbitrary: cache)
  case Nil
  then show ?case by simp
next
  case (Cons call rest)
  obtain env up req where call: "call = (env, up, req)" by (cases call) auto
  from Cons.prems(1) have b: "cache_bounded (cacheAfter (GET env up cache req))"
    "reply_bounded (reply (GET env up cache req))"
    using GET_bounded by blast+
  from Cons.prems(2) call have
    "out = GET env up cache req \<or> out \<in> set (serve (cacheAfter (GET env up cache req)) rest)"
    by (simp add: Let_def)
  then show ?case
  proof
    assume "out = GET env up cache req"
    with b show ?thesis by simp
  next
    assume "out \<in> set (serve (cacheAfter (GET env up cache req)) rest)"
    with Cons.IH [OF b(1)] show ?thesis by simp
  qed
qed

section \<open>The year test\<close>

declare bit_length.simps [simp del]

lemma bit_length_bound: "0 < n \<Longrightarrow> 2 ^ (bit_length n - 1) \<le> n"
proof (induction n rule: bit_length.induct)
  case (1 n)
  show ?case
  proof (cases "n div 2 \<le> 0")
    case True
    with "1.prems" have "n = 1" by linarith
    then show ?thesis by (simp add: bit_length.simps [of 1] bit_length.simps [of 0])
  next
    case False
    then have pos: "0 < n div 2" by simp
    with "1.IH" "1.prems" have ih: "2 ^ (bit_length (n div 2) - 1) \<le> n div 2" by simp
    from pos have "bit_length (n div 2) = Suc (bit_length (n div 2 div 2))"
      by (subst bit_length.simps) simp
    then have "bit_length (n div 2) = Suc (bit_length (n div 2) - 1)"
      by simp
    then have "(2::int) ^ bit_length (n div 2) = 2 * 2 ^ (bit_length (n div 2) - 1)"
      by (metis power_Suc)
    also have "\<dots> \<le> 2 * (n div 2)" using ih by simp
    also have "\<dots> \<le> n" by linarith
    finally have "(2::int) ^ bit_length (n div 2) \<le> n" .
    moreover from "1.prems" have "bit_length n = Suc (bit_length (n div 2))"
      by (subst bit_length.simps) simp
    ultimately show ?thesis by simp
  qed
qed

lemma round_to_double_sign:
  assumes "round_to_double n = Some v" and "0 \<le> n"
  shows "0 \<le> v \<and> (v = 0 \<longleftrightarrow> n = 0)"
proof (cases "n < 2 ^ 53")
  case True
  with assms show ?thesis by (simp add: round_to_double_def)
next
  case False
  define e where "e = bit_length n - 53"
  define q where "q = n div 2 ^ e"
  define q' where "q' = (if 2 ^ (e - 1) < n mod 2 ^ e \<or> (n mod 2 ^ e = 2 ^ (e - 1) \<and> odd q)
    then q + 1 else q)"
  from False have npos: "0 < n" by (smt (verit) zero_less_power)
  have "(2::int) ^ e \<le> 2 ^ (bit_length n - 1)"
    unfolding e_def by (rule power_increasing) simp_all
  also have "\<dots> \<le> n" using npos by (rule bit_length_bound)
  finally have "2 ^ e \<le> n" .
  then have "0 < q" unfolding q_def
    by (simp add: pos_imp_zdiv_pos_iff)
  then have "1 \<le> q" by simp
  then have "1 \<le> q'" unfolding q'_def by simp
  then have vpos: "0 < q' * 2 ^ e" by simp
  have "round_to_double n = (if q' * 2 ^ e < 2 ^ 1024 then Some (q' * 2 ^ e) else None)"
    using False unfolding round_to_double_def Let_def e_def q_def q'_def by simp
  with assms(1) have "v = q' * 2 ^ e"
    by (simp split: if_splits)
  with vpos have "0 < v" by simp
  with npos show ?thesis by simp
qed

lemma isDigit_uint: "isDigit d \<Longrightarrow> 48 \<le> uint d"
  by (auto simp: isDigit_def)

lemma foldl_digits_nonneg:
  "\<forall>d \<in> set z. isDigit d \<Longrightarrow> 0 \<le> a \<Longrightarrow> 0 \<le> foldl (\<lambda>a d. 10 * a + (uint d - 48)) a z"
proof (induction z arbitrary: a)
  case Nil
  then show ?case by simp
next
  case (Cons d z)
  from Cons.prems have "0 \<le> 10 * a + (uint d - 48)"
    using isDigit_uint [of d] by simp
  with Cons show ?case by simp
qed

lemma digits_value_nonneg: "0 \<le> digits_value (takeWhile isDigit s)"
  unfolding digits_value_def
  by (rule foldl_digits_nonneg) (auto dest: set_takeWhileD)

lemma year_rejected_iff:
  "year_rejected (yearParam req) \<longleftrightarrow>
     (case requested_year req of Number y \<Rightarrow> y < 0 | _ \<Rightarrow> True)"
proof -
  define s where "s = dropWhile isWhiteSpace (case yearParam req of None \<Rightarrow> [] | Some t \<Rightarrow> t)"
  define z where "z = takeWhile isDigit (if s \<noteq> [] \<and> (hd s = 0x2B \<or> hd s = 0x2D) then tl s else s)"
  have nn: "0 \<le> digits_value z" unfolding z_def by (rule digits_value_nonneg)
  show ?thesis
  proof (cases "round_to_double (digits_value z)")
    case None
    then show ?thesis
      by (simp add: year_rejected_def requested_year_def parseInt10_def Let_def
          s_def [symmetric] z_def [symmetric])
  next
    case (Some v)
    from round_to_double_sign [OF Some nn] have "0 \<le> v" "v = 0 \<longleftrightarrow> digits_value z = 0"
      by simp_all
    with Some show ?thesis
      by (auto simp: year_rejected_def requested_year_def parseInt10_def Let_def
          s_def [symmetric] z_def [symmetric])
  qed
qed

lemma year_rejected_missing: "year_rejected None"
  by (simp add: year_rejected_def)

lemma year_rejected_no_digit:
  assumes "\<forall>c \<in> set s. \<not> isDigit c"
  shows "year_rejected (Some s)"
proof -
  define t where "t = dropWhile isWhiteSpace s"
  define u where "u = (if t \<noteq> [] \<and> (hd t = 0x2B \<or> hd t = 0x2D) then tl t else t)"
  have "set u \<subseteq> set t" unfolding u_def by (auto dest: list.set_sel(2))
  also have "set t \<subseteq> set s" unfolding t_def by (auto dest: set_dropWhileD)
  finally have "\<forall>c \<in> set u. \<not> isDigit c" using assms by blast
  then have "takeWhile isDigit u = []" by (cases u) simp_all
  then show ?thesis
    by (simp add: year_rejected_def Let_def t_def [symmetric] u_def [symmetric])
qed

section \<open>The attempts of the coercion, and blank text\<close>

lemma coerce_first:
  "array_items text = Some xs \<Longrightarrow> coerceToStringArray text = xs"
  by (simp add: coerceToStringArray_def)

lemma coerce_second:
  "array_items text = None \<Longrightarrow> bracket_match text = Some m \<Longrightarrow> array_items m = Some xs \<Longrightarrow>
   coerceToStringArray text = xs"
  by (simp add: coerceToStringArray_def)

lemma coerce_third:
  "array_items text = None \<Longrightarrow>
   bracket_match text = None \<or> (\<exists>m. bracket_match text = Some m \<and> array_items m = None) \<Longrightarrow>
   coerceToStringArray text = fallback_items text"
  by (auto simp: coerceToStringArray_def)

lemma array_items_parse:
  "JSON_parse text = Some (JArray vs) \<Longrightarrow>
   array_items text = Some (map normalizeItem (string_elements vs))"
  by (simp add: array_items_def)

lemma fallback_length: "length (fallback_items text) \<le> 10"
  by (simp add: fallback_items_def)

lemma keyword_space: "isWhiteSpace c \<Longrightarrow> lex_keyword c cs = None"
  unfolding isWhiteSpace_def lex_keyword_def by auto

lemma digit_space: "isWhiteSpace c \<Longrightarrow> \<not> isDigit c"
  unfolding isWhiteSpace_def isDigit_def by auto

lemma punct_space:
  "isWhiteSpace c \<Longrightarrow>
   c \<noteq> 0x5B \<and> c \<noteq> 0x5D \<and> c \<noteq> 0x7B \<and> c \<noteq> 0x7D \<and> c \<noteq> 0x2C \<and> c \<noteq> 0x3A \<and> c \<noteq> 0x22 \<and> c \<noteq> 0x2D"
  unfolding isWhiteSpace_def by auto

lemma lex_token_space: "isWhiteSpace c \<Longrightarrow> lex_token c cs = None"
  using punct_space [of c] digit_space [of c] keyword_space [of c cs]
  by (simp add: lex_token_def)

lemma lex_blank:
  "\<forall>c \<in> set s. isWhiteSpace c \<Longrightarrow> lex s = None \<or> lex s = Some []"
proof (induction s)
  case Nil
  then show ?case by simp
next
  case (Cons c cs)
  then have t: "lex_token c cs = None" by (simp add: lex_token_space)
  from Cons have ih: "lex cs = None \<or> lex cs = Some []" by simp
  show ?case
  proof (cases "isJsonSpace c")
    case True
    with ih show ?thesis by simp
  next
    case False
    with t show ?thesis by simp
  qed
qed

lemma JSON_parse_blank: "\<forall>c \<in> set s. isWhiteSpace c \<Longrightarrow> JSON_parse s = None"
  using lex_blank [of s] by (auto simp: JSON_parse_def)

lemma bracket_match_blank:
  assumes "\<forall>c \<in> set s. isWhiteSpace c"
  shows "bracket_match s = None"
proof -
  have "\<not> isWhiteSpace 0x5B" by (simp add: isWhiteSpace_def)
  with assms have "\<forall>c \<in> set s. c \<noteq> 0x5B" by blast
  then have d: "dropWhile (\<lambda>c. c \<noteq> 0x5B) s = []" by simp
  show ?thesis unfolding bracket_match_def d by simp
qed

lemma separator_set:
  assumes "separator c cs = Some r"
  shows "set r \<subseteq> set cs"
proof -
  have a: "set (tl cs) \<subseteq> set cs" by (cases cs) auto
  have b: "set (dropWhile isWhiteSpace cs) \<subseteq> set cs" by (auto dest: set_dropWhileD)
  from assms have "r = tl cs \<or> r = cs \<or> r = dropWhile isWhiteSpace cs"
    by (simp add: separator_def split: if_splits)
  with a b show ?thesis by auto
qed

lemma split_from_set:
  "f \<in> set (split_from cur s) \<Longrightarrow> set f \<subseteq> set cur \<union> set s"
proof (induction cur s rule: split_from.induct)
  case (1 cur)
  then show ?case by simp
next
  case (2 cur c cs)
  show ?case
  proof (cases "separator c cs")
    case None
    with 2 show ?thesis by auto
  next
    case (Some r)
    with "2.prems" have "f = rev cur \<or> f \<in> set (split_from [] r)" by simp
    then show ?thesis
    proof
      assume "f = rev cur"
      then show ?thesis by auto
    next
      assume "f \<in> set (split_from [] r)"
      with "2.IH"(2) [OF Some] have "set f \<subseteq> set r" by simp
      with separator_set [OF Some] show ?thesis by auto
    qed
  qed
qed

lemma trim_blank:
  assumes "\<forall>c \<in> set f. isWhiteSpace c"
  shows "trim f = []"
proof -
  from assms have d: "dropWhile isWhiteSpace f = []" by simp
  show ?thesis unfolding trim_def d by simp
qed

lemma fallback_blank:
  assumes "\<forall>c \<in> set s. isWhiteSpace c"
  shows "fallback_items s = []"
proof -
  have "trim f = []" if "f \<in> set (split_lines s)" for f
  proof -
    from that have "set f \<subseteq> set s"
      using split_from_set [of f "[]" s] by (simp add: split_lines_def)
    with assms show ?thesis by (intro trim_blank) blast
  qed
  then have "filter (\<lambda>s. s \<noteq> []) (map trim (split_lines s)) = []"
    by (simp add: filter_empty_conv)
  then show ?thesis by (simp add: fallback_items_def)
qed

lemma coerce_blank:
  assumes "\<forall>c \<in> set s. isWhiteSpace c"
  shows "coerceToStringArray s = []"
proof -
  from assms have "array_items s = None"
    by (simp add: array_items_def JSON_parse_blank)
  moreover from assms have "bracket_match s = None" by (rule bracket_match_blank)
  ultimately have "coerceToStringArray s = fallback_items s"
    by (simp add: coerce_third)
  with assms show ?thesis by (simp add: fallback_blank)
qed

lemma bracket_match_span:
  assumes "0x5B \<notin> set pre" and "0x5D \<notin> set post"
  shows "bracket_match (pre @ [0x5B] @ mid @ [0x5D] @ post) = Some ([0x5B] @ mid @ [0x5D])"
proof -
  from assms(1) have "\<forall>c \<in> set pre. c \<noteq> 0x5B" by blast
  then have d: "dropWhile (\<lambda>c. c \<noteq> 0x5B) (pre @ [0x5B] @ mid @ [0x5D] @ post) =
      0x5B # (mid @ [0x5D] @ post)"
    by (simp add: dropWhile_append3)
  from assms(2) have "\<forall>c \<in> set (rev post). c \<noteq> 0x5D" by auto
  then have "dropWhile (\<lambda>c. c \<noteq> 0x5D) (rev post @ 0x5D # rev mid) = 0x5D # rev mid"
    by (simp add: dropWhile_append3)
  then have e: "rev (dropWhile (\<lambda>c. c \<noteq> 0x5D) (rev (mid @ [0x5D] @ post))) = mid @ [0x5D]"
    by simp
  show ?thesis unfolding bracket_match_def d using e by simp
qed

lemma bracket_match_none:
  assumes "0x5B \<notin> set pre" and "0x5D \<notin> set rest"
  shows "bracket_match pre = None" and "bracket_match (pre @ [0x5B] @ rest) = None"
proof -
  from assms(1) have a: "\<forall>c \<in> set pre. c \<noteq> 0x5B" by blast
  then have d: "dropWhile (\<lambda>c. c \<noteq> 0x5B) pre = []" by simp
  show "bracket_match pre = None" unfolding bracket_match_def d by simp
  from a have d': "dropWhile (\<lambda>c. c \<noteq> 0x5B) (pre @ [0x5B] @ rest) = 0x5B # rest"
    by (simp add: dropWhile_append3)
  show "bracket_match (pre @ [0x5B] @ rest) = None"
    unfolding bracket_match_def d' using assms(2) by simp
qed

section \<open>The values of the examples\<close>

lemma js_nonempty: "s \<noteq> [] \<Longrightarrow> js s \<noteq> []"
  by (simp add: js_def)

lemma year_1969: "requested_year \<lparr>yearParam = Some (js ''1969''), forceParam = f\<rparr> = Number 1969"
  by (simp add: requested_year_def parseInt10_def js_def isWhiteSpace_def isDigit_def
      digits_value_def round_to_double_def)

lemma year_12abc:
  "requested_year \<lparr>yearParam = Some (js ''12abc''), forceParam = f\<rparr> = Number 12"
  by (simp add: requested_year_def parseInt10_def js_def isWhiteSpace_def isDigit_def
      digits_value_def round_to_double_def)

lemma year_minus5: "year_rejected (Some (js ''-5''))"
  by (simp add: year_rejected_def js_def isWhiteSpace_def isDigit_def
      digits_value_def round_to_double_def)

lemma not_forced_None: "\<not> forced \<lparr>yearParam = y, forceParam = None\<rparr>"
  by (simp add: forced_def)

lemma forced_true: "forced \<lparr>yearParam = y, forceParam = Some (js ''true'')\<rparr>"
  by (simp add: forced_def)

lemma coerce_AB: \<open>coerceToStringArray (js ''["A","B"]'') = [js ''A'', js ''B'']\<close>
  by code_simp

lemma array_items_AB: \<open>array_items (js ''["A","B"]'') = Some [js ''A'', js ''B'']\<close>
  by code_simp

lemma intro_whole: \<open>array_items (js ''Intro: ["1. Landed on the moon", "- Cured a disease"]'') = None\<close>
  by code_simp

lemma intro_match:
  \<open>bracket_match (js ''Intro: ["1. Landed on the moon", "- Cured a disease"]'') =
     Some (js ''["1. Landed on the moon", "- Cured a disease"]'')\<close>
  by code_simp

lemma intro_items:
  \<open>array_items (js ''["1. Landed on the moon", "- Cured a disease"]'') =
     Some [js ''Landed on the moon'', js ''Cured a disease'']\<close>
  by code_simp

lemma lines_whole:
  \<open>array_items (js ''1. First'' @ [0x0A] @ js ''2. Second'' @ [0x0A] @ js ''3. Third'') = None\<close>
  by code_simp

lemma lines_match:
  \<open>bracket_match (js ''1. First'' @ [0x0A] @ js ''2. Second'' @ [0x0A] @ js ''3. Third'') = None\<close>
  by code_simp

lemma lines_fallback:
  \<open>fallback_items (js ''1. First'' @ [0x0A] @ js ''2. Second'' @ [0x0A] @ js ''3. Third'') =
     [js ''First'', js ''Second'', js ''Third'']\<close>
  by code_simp

lemma eleven_items:
  \<open>array_items (js ''["a","b","c","d","e","f","g","h","i","j","k"]'') =
     Some [js ''a'', js ''b'', js ''c'', js ''d'', js ''e'', js ''f'', js ''g'', js ''h'',
           js ''i'', js ''j'', js ''k'']\<close>
  by code_simp

lemma twelve_whole: "array_items (js ''a - b - c - d - e - f - g - h - i - j - k - l'') = None"
  by code_simp

lemma twelve_match: "bracket_match (js ''a - b - c - d - e - f - g - h - i - j - k - l'') = None"
  by code_simp

lemma twelve_fallback:
  "fallback_items (js ''a - b - c - d - e - f - g - h - i - j - k - l'') =
     [js ''a'', js ''b'', js ''c'', js ''d'', js ''e'', js ''f'', js ''g'', js ''h'',
      js ''i'', js ''j'']"
  by code_simp

lemma parse_AB:
  \<open>JSON_parse (js ''["1. A", 7, "B"]'') = Some (JArray [JString (js ''1. A''), JNumber, JString (js ''B'')])\<close>
  by code_simp

lemma normalize_1A: "normalizeItem (js ''1. A'') = js ''A''"
  by code_simp

lemma normalize_B: "normalizeItem (js ''B'') = js ''B''"
  by code_simp

lemma blank_spaces: "\<forall>c \<in> set (js ''   ''). isWhiteSpace c"
  by (simp add: js_def isWhiteSpace_def)

lemma first_1969:
  \<open>GET \<lparr>now = 1000, apiKey = Some (js ''k'')\<rparr> (Ok (Some (js ''["A","B"]''))) Map.empty
       \<lparr>yearParam = Some (js ''1969''), forceParam = f\<rparr> =
    \<lparr>reply = items_response 1969 [js ''A'', js ''B''],
     cacheAfter = Map.empty(1969 \<mapsto> \<lparr>at = 1000, items = [js ''A'', js ''B'']\<rparr>),
     upstreamCall = Some \<lparr>promptYear = 1969, keyHeader = js ''k''\<rparr>\<rparr>\<close>
proof -
  have "GET \<lparr>now = 1000, apiKey = Some (js ''k'')\<rparr> (Ok (Some (js ''[\"A\",\"B\"]''))) Map.empty
       \<lparr>yearParam = Some (js ''1969''), forceParam = f\<rparr> =
     refresh \<lparr>now = 1000, apiKey = Some (js ''k'')\<rparr> (Ok (Some (js ''[\"A\",\"B\"]''))) Map.empty 1969"
    by (rule GET_refresh) (simp_all add: year_1969)
  also have "\<dots> = \<lparr>reply = items_response 1969 [js ''A'', js ''B''],
     cacheAfter = Map.empty(1969 \<mapsto> \<lparr>at = 1000, items = [js ''A'', js ''B'']\<rparr>),
     upstreamCall = Some \<lparr>promptYear = 1969, keyHeader = js ''k''\<rparr>\<rparr>"
    using refresh_success [of "\<lparr>now = 1000, apiKey = Some (js ''k'')\<rparr>" "js ''k''"
        "js ''[\"A\",\"B\"]''" Map.empty 1969]
    by (simp add: coerce_AB js_nonempty)
  finally show ?thesis .
qed

lemma two_whole: \<open>array_items (js ''Here: ["a"] and ["b"]'') = None\<close>
  by code_simp

lemma two_match:
  \<open>bracket_match (js ''Here: ["a"] and ["b"]'') = Some (js ''["a"] and ["b"]'')\<close>
  by code_simp

lemma two_span: \<open>array_items (js ''["a"] and ["b"]'') = None\<close>
  by code_simp

lemma two_fallback:
  \<open>fallback_items (js ''Here: ["a"] and ["b"]'') = [js ''Here: ["a"] and ["b"]'']\<close>
  by code_simp

lemma two_first: \<open>first_bracketed (js ''Here: ["a"] and ["b"]'') = Some (js ''["a"]'')\<close>
  by code_simp

lemma two_first_items: \<open>array_items (js ''["a"]'') = Some [js ''a'']\<close>
  by code_simp

lemma nested_whole: \<open>array_items (js ''Result: [["x"], "b"] done'') = None\<close>
  by code_simp

lemma nested_match:
  \<open>bracket_match (js ''Result: [["x"], "b"] done'') = Some (js ''[["x"], "b"]'')\<close>
  by code_simp

lemma nested_items: \<open>array_items (js ''[["x"], "b"]'') = Some [js ''b'']\<close>
  by code_simp

lemma bullets_whole: "array_items ([0x2022] @ js '' One '' @ [0x2022] @ js '' Two'') = None"
  by code_simp

lemma bullets_match: "bracket_match ([0x2022] @ js '' One '' @ [0x2022] @ js '' Two'') = None"
  by code_simp

lemma bullets_fallback:
  "fallback_items ([0x2022] @ js '' One '' @ [0x2022] @ js '' Two'') = [js ''One'', js ''Two'']"
  by code_simp

lemma escapes_items:
  \<open>array_items (js ''["x'' @ [0x5C] @ js ''"y", true, null, "'' @ [0x5C] @ js ''u0041", "''
      @ [0x2022] @ js '' z"]'') =
     Some [js ''x"y'', js ''A'', js ''z'']\<close>
  by code_simp

lemma top_whole: \<open>array_items (js ''Top: ["1. A", 7, "B"] end'') = None\<close>
  by code_simp

lemma top_match:
  \<open>bracket_match (js ''Top: ["1. A", 7, "B"] end'') = Some (js ''["1. A", 7, "B"]'')\<close>
  by code_simp

section \<open>The runs of the effect\<close>

lemma mount_current: "only_latest_current (mount y)"
  by (auto simp: only_latest_current_def mount_def start_effect_def)

lemma cleanup_clears:
  assumes "only_latest_current s" and "i < length (runs (cleanup s))"
  shows "\<not> isCurrent (runs (cleanup s) ! i)"
proof (cases "Suc i = length (runs s)")
  case True
  then have "length (runs s) - 1 = i" "runs s \<noteq> []" by auto
  with True show ?thesis by (simp add: cleanup_def)
next
  case False
  with assms have "\<not> isCurrent (runs s ! i)"
    by (auto simp: only_latest_current_def cleanup_def split: if_splits)
  with False assms(2) show ?thesis
    by (auto simp: cleanup_def split: if_splits)
qed

lemma start_effect_runs:
  "\<exists>t. runs (start_effect y s) = runs s @ [\<lparr>runYear = y, isCurrent = True, stage = t\<rparr>] \<and>
       yearProp (start_effect y s) = yearProp s"
  by (auto simp: start_effect_def split: option.splits)

lemma render_current:
  assumes "only_latest_current s"
  shows "only_latest_current (step s (Render y))"
proof (cases "y = yearProp s")
  case True
  with assms show ?thesis by (simp add: step_def)
next
  case False
  let ?c = "(cleanup s)\<lparr>yearProp := y\<rparr>"
  from start_effect_runs [of y ?c] obtain t where
    r: "runs (start_effect y ?c) = runs (cleanup s) @ [\<lparr>runYear = y, isCurrent = True, stage = t\<rparr>]"
    and p: "yearProp (start_effect y ?c) = y"
    by auto
  have "only_latest_current (start_effect y ?c)"
    unfolding only_latest_current_def
  proof (intro allI impI)
    fix i
    assume i: "i < length (runs (start_effect y ?c))"
      and c: "isCurrent (runs (start_effect y ?c) ! i)"
    show "Suc i = length (runs (start_effect y ?c)) \<and>
        runYear (runs (start_effect y ?c) ! i) = yearProp (start_effect y ?c)"
    proof (cases "i < length (runs (cleanup s))")
      case True
      with c r have "isCurrent (runs (cleanup s) ! i)" by (simp add: nth_append)
      with cleanup_clears [OF assms True] show ?thesis by simp
    next
      case False
      with i r have "i = length (runs (cleanup s))" by simp
      with r p show ?thesis by simp
    qed
  qed
  with False show ?thesis by (simp add: step_def)
qed

lemma stage_update_nth:
  "j < length rs \<Longrightarrow>
   isCurrent (rs[i := (rs ! i)\<lparr>stage := t\<rparr>] ! j) = isCurrent (rs ! j) \<and>
   runYear (rs[i := (rs ! i)\<lparr>stage := t\<rparr>] ! j) = runYear (rs ! j)"
  by (cases "i = j") simp_all

lemma stage_update_current:
  assumes "only_latest_current s"
  shows "only_latest_current (s\<lparr>runs := (runs s)[i := (runs s ! i)\<lparr>stage := t\<rparr>]\<rparr>)"
  using assms by (simp add: only_latest_current_def stage_update_nth)

lemma settle_current: "only_latest_current s \<Longrightarrow> only_latest_current (settle i s)"
  unfolding settle_def by (rule stage_update_current)

lemma only_latest_current_shown [simp]:
  "only_latest_current (s\<lparr>shownStatus := a\<rparr>) = only_latest_current s"
  "only_latest_current (s\<lparr>shownItems := b\<rparr>) = only_latest_current s"
  "only_latest_current (s\<lparr>cacheRef := c\<rparr>) = only_latest_current s"
  by (simp_all add: only_latest_current_def)

lemma on_catch_current: "only_latest_current s \<Longrightarrow> only_latest_current (on_catch i s)"
  by (simp add: on_catch_def settle_current)

lemma on_data_current: "only_latest_current s \<Longrightarrow> only_latest_current (on_data i d s)"
  by (simp add: on_data_def Let_def settle_current)

lemma step_current: "only_latest_current s \<Longrightarrow> only_latest_current (step s ev)"
proof (cases ev)
  case (Render y)
  assume "only_latest_current s"
  with Render show ?thesis by (simp add: render_current)
next
  case (FetchSettles i r)
  assume "only_latest_current s"
  with FetchSettles show ?thesis
    by (auto simp: step_def on_catch_current stage_update_current
        split: fetch_result.splits bool.splits)
next
  case (JsonSettles i r)
  assume "only_latest_current s"
  with JsonSettles show ?thesis
    by (auto simp: step_def on_catch_current on_data_current split: json_result.splits)
qed

lemma foldl_step_current:
  "only_latest_current s \<Longrightarrow> only_latest_current (foldl step s evs)"
  by (induction evs arbitrary: s) (simp_all add: step_current)

lemma run_events_current: "only_latest_current (run_events (mount y) evs)"
  unfolding run_events_def by (rule foldl_step_current) (rule mount_current)

lemma visible_runs [simp]: "visible (s\<lparr>runs := rs\<rparr>) = visible s"
  by (simp add: visible_def)

lemma visible_settle [simp]: "visible (settle i s) = visible s"
  by (simp add: settle_def)

lemma stale_fetch:
  "\<not> isCurrent (runs s ! i) \<Longrightarrow> visible (step s (FetchSettles i r)) = visible s"
  by (auto simp: step_def on_catch_def split: fetch_result.splits bool.splits)

lemma stale_json:
  "\<not> isCurrent (runs s ! i) \<Longrightarrow> visible (step s (JsonSettles i d)) = visible s"
  by (auto simp: step_def on_catch_def on_data_def split: json_result.splits)

lemma beyond_fetch:
  "\<not> i < length (runs s) \<Longrightarrow> step s (FetchSettles i r) = s"
  "\<not> i < length (runs s) \<Longrightarrow> step s (JsonSettles i d) = s"
  by (simp_all add: step_def)

lemma step_grows: "length (runs s) \<le> length (runs (step s ev))"
proof (cases ev)
  case (Render y)
  from start_effect_runs [of y "(cleanup s)\<lparr>yearProp := y\<rparr>"]
  have "length (runs (cleanup s)) \<le> length (runs (start_effect y ((cleanup s)\<lparr>yearProp := y\<rparr>)))"
    by auto
  moreover have "length (runs (cleanup s)) = length (runs s)" by (simp add: cleanup_def)
  ultimately show ?thesis using Render by (simp add: step_def)
next
  case (FetchSettles i r)
  then show ?thesis
    by (auto simp: step_def on_catch_def settle_def split: fetch_result.splits bool.splits)
next
  case (JsonSettles i r)
  then show ?thesis
    by (auto simp: step_def on_catch_def on_data_def settle_def Let_def split: json_result.splits)
qed

lemma foldl_step_grows: "length (runs s) \<le> length (runs (foldl step s evs))"
proof (induction evs arbitrary: s)
  case Nil
  show ?case by simp
next
  case (Cons ev evs)
  from step_grows [of s ev] Cons [of "step s ev"] show ?case by simp
qed

lemma two_runs:
  assumes "y1 \<noteq> y2"
  shows "Suc 0 < length (runs (run_events (mount y1) (Render y2 # evs)))"
proof -
  have "length (runs (mount y1)) = 1"
    by (simp add: mount_def start_effect_def)
  moreover have "yearProp (mount y1) = y1"
    by (simp add: mount_def start_effect_def)
  ultimately have "length (runs (step (mount y1) (Render y2))) = 2"
    using assms start_effect_runs [of y2 "(cleanup (mount y1))\<lparr>yearProp := y2\<rparr>"]
    by (auto simp: step_def cleanup_def)
  with foldl_step_grows [of "step (mount y1) (Render y2)" evs]
  show ?thesis by (simp add: run_events_def)
qed

lemma after_change:
  "visible (run_events (mount 1969) [Render 1970, FetchSettles 0 (FetchResponse True)]) =
     ([], Loading, Map.empty)"
  by (simp add: run_events_def mount_def start_effect_def step_def cleanup_def visible_def)

section \<open>Claim C1: cache hits\<close>

text \<open>
  Claim C1. A request without a forced refresh, for a year that parses to a non-negative
  number and has a cache entry younger than 7 days, is answered with status 200 and exactly
  the cached items, with no upstream call and the cache left as it was. And a request that
  is answered with status 200 leaves an entry for its year that holds the items of the
  answer (written at the time of the request when the answer came from upstream), so that
  any later request for that year, not forced and within the time to live of that entry,
  gets the same answer from the cache with no upstream call.
\<close>

theorem GET_cache_hit:
  "(\<forall>y cached. requested_year req = Number y \<and> 0 \<le> y \<and> cache y = Some cached \<and>
       now env - at cached < CACHE_TTL_MS \<and> \<not> forced req \<longrightarrow>
       GET env up cache req =
         \<lparr>reply = \<lparr>status = 200, body = Highlights y (items cached),
                    cacheControl = Some ''public, max-age=0, s-maxage=86400''\<rparr>,
          cacheAfter = cache, upstreamCall = None\<rparr>) \<and>
   (status (reply (GET env up cache req)) = 200 \<longrightarrow>
      (\<exists>y e. requested_year req = Number y \<and> 0 \<le> y \<and>
         cacheAfter (GET env up cache req) y = Some e \<and>
         body (reply (GET env up cache req)) = Highlights y (items e) \<and>
         (upstreamCall (GET env up cache req) \<noteq> None \<longrightarrow> at e = now env) \<and>
         (\<forall>env' up' req'. requested_year req' = Number y \<and> \<not> forced req' \<and>
             now env' - at e < CACHE_TTL_MS \<longrightarrow>
             GET env' up' (cacheAfter (GET env up cache req)) req' =
               \<lparr>reply = reply (GET env up cache req),
                cacheAfter = cacheAfter (GET env up cache req),
                upstreamCall = None\<rparr>)))"
proof (intro conjI allI impI)
  fix y cached
  assume "requested_year req = Number y \<and> 0 \<le> y \<and> cache y = Some cached \<and>
       now env - at cached < CACHE_TTL_MS \<and> \<not> forced req"
  then show "GET env up cache req =
         \<lparr>reply = \<lparr>status = 200, body = Highlights y (items cached),
                    cacheControl = Some ''public, max-age=0, s-maxage=86400''\<rparr>,
          cacheAfter = cache, upstreamCall = None\<rparr>"
    by (simp add: GET_hit items_response_def)
next
  let ?out = "GET env up cache req"
  assume ok: "status (reply ?out) = 200"
  consider
    (invalid) "?out =
        \<lparr>reply = error_response 400 ''Invalid or missing year'', cacheAfter = cache, upstreamCall = None\<rparr>"
  | (hit) y cached where "requested_year req = Number y" "0 \<le> y" "cache y = Some cached"
      "?out = \<lparr>reply = items_response y (items cached), cacheAfter = cache, upstreamCall = None\<rparr>"
  | (refresh) y where "requested_year req = Number y" "0 \<le> y" "?out = refresh env up cache y"
    using GET_cases [of req env up cache] by blast
  then obtain y e where y: "requested_year req = Number y" "0 \<le> y"
    and e: "cacheAfter ?out y = Some e" "reply ?out = items_response y (items e)"
      "upstreamCall ?out \<noteq> None \<longrightarrow> at e = now env"
  proof cases
    case invalid
    with ok show ?thesis by (simp add: error_response_def)
  next
    case (hit y cached)
    then show ?thesis using that [of y cached] by simp
  next
    case (refresh y)
    from ok refresh(3) have "status (reply (refresh env up cache y)) = 200" by simp
    from refresh_200 [OF this] obtain its where
      "refresh env up cache y =
         \<lparr>reply = items_response y its,
          cacheAfter = cache(y \<mapsto> \<lparr>at = now env, items = its\<rparr>),
          upstreamCall = Some \<lparr>promptYear = y, keyHeader = the (apiKey env)\<rparr>\<rparr>"
      by blast
    with refresh show ?thesis using that [of y "\<lparr>at = now env, items = its\<rparr>"] by simp
  qed
  have again: "GET env' up' (cacheAfter ?out) req' =
      \<lparr>reply = reply ?out, cacheAfter = cacheAfter ?out, upstreamCall = None\<rparr>"
    if "requested_year req' = Number y \<and> \<not> forced req' \<and> now env' - at e < CACHE_TTL_MS"
    for env' up' req'
    using that y(2) e(1,2) by (simp add: GET_hit)
  from y e again show "\<exists>y e. requested_year req = Number y \<and> 0 \<le> y \<and>
         cacheAfter ?out y = Some e \<and>
         body (reply ?out) = Highlights y (items e) \<and>
         (upstreamCall ?out \<noteq> None \<longrightarrow> at e = now env) \<and>
         (\<forall>env' up' req'. requested_year req' = Number y \<and> \<not> forced req' \<and>
             now env' - at e < CACHE_TTL_MS \<longrightarrow>
             GET env' up' (cacheAfter ?out) req' =
               \<lparr>reply = reply ?out, cacheAfter = cacheAfter ?out, upstreamCall = None\<rparr>)"
    by (intro exI [of _ y] exI [of _ e]) (simp add: items_response_def)
qed

theorem GET_cache_hit_witness:
  \<open>GET \<lparr>now = 2000, apiKey = None\<rparr> Rejects
     (cacheAfter (GET \<lparr>now = 1000, apiKey = Some (js ''k'')\<rparr> (Ok (Some (js ''["A","B"]'')))
        Map.empty \<lparr>yearParam = Some (js ''1969''), forceParam = None\<rparr>))
     \<lparr>yearParam = Some (js ''1969''), forceParam = None\<rparr> =
   \<lparr>reply = \<lparr>status = 200, body = Highlights 1969 [js ''A'', js ''B''],
              cacheControl = Some ''public, max-age=0, s-maxage=86400''\<rparr>,
    cacheAfter = Map.empty(1969 \<mapsto> \<lparr>at = 1000, items = [js ''A'', js ''B'']\<rparr>),
    upstreamCall = None\<rparr>\<close>
proof -
  let ?req = "\<lparr>yearParam = Some (js ''1969''), forceParam = None\<rparr>"
  let ?first = "GET \<lparr>now = 1000, apiKey = Some (js ''k'')\<rparr> (Ok (Some (js ''[\"A\",\"B\"]'')))
        Map.empty ?req"
  have "status (reply ?first) = 200"
    by (simp add: first_1969 items_response_def)
  with GET_cache_hit [of ?req Map.empty "\<lparr>now = 1000, apiKey = Some (js ''k'')\<rparr>"
      "Ok (Some (js ''[\"A\",\"B\"]''))"]
  obtain y e where y: "requested_year ?req = Number y"
    and e: "cacheAfter ?first y = Some e"
    and again: "\<forall>env' up' req'. requested_year req' = Number y \<and> \<not> forced req' \<and>
             now env' - at e < CACHE_TTL_MS \<longrightarrow>
             GET env' up' (cacheAfter ?first) req' =
               \<lparr>reply = reply ?first, cacheAfter = cacheAfter ?first, upstreamCall = None\<rparr>"
    by blast
  from y have y': "y = 1969" by (simp add: year_1969)
  with e have e': "e = \<lparr>at = 1000, items = [js ''A'', js ''B'']\<rparr>"
    by (simp add: first_1969)
  have "requested_year ?req = Number y \<and> \<not> forced ?req \<and>
      now \<lparr>now = 2000, apiKey = None\<rparr> - at e < CACHE_TTL_MS"
    by (simp add: y' e' year_1969 not_forced_None CACHE_TTL_MS_def)
  with again have "GET \<lparr>now = 2000, apiKey = None\<rparr> Rejects (cacheAfter ?first) ?req =
      \<lparr>reply = reply ?first, cacheAfter = cacheAfter ?first, upstreamCall = None\<rparr>"
    by blast
  then show ?thesis by (simp add: first_1969 items_response_def)
qed

section \<open>Claim C2: the precedence of the coercion\<close>

text \<open>
  Claim C2, as the code has it. The claim as stated fails in its second step: the source's
  expression is greedy, so what is parsed is not the first bracket-delimited substring but
  the text from the first opening bracket to the last closing bracket. In a text with two
  arrays the first bracketed substring parses as an array of one string, yet the coercion
  does not return that string: the greedy match spans both arrays and does not parse, and
  the fallback returns the whole text as one item.
\<close>

theorem first_bracketed_counterexample:
  \<open>first_bracketed (js ''Here: ["a"] and ["b"]'') = Some (js ''["a"]'') \<and>
   array_items (js ''["a"]'') = Some [js ''a''] \<and>
   array_items (js ''Here: ["a"] and ["b"]'') = None \<and>
   coerceToStringArray (js ''Here: ["a"] and ["b"]'') = [js ''Here: ["a"] and ["b"]''] \<and>
   coerceToStringArray (js ''Here: ["a"] and ["b"]'') \<noteq> [js ''a'']\<close>
proof -
  have c: \<open>coerceToStringArray (js ''Here: ["a"] and ["b"]'') = [js ''Here: ["a"] and ["b"]'']\<close>
    using coerce_third [OF two_whole] by (simp add: two_match two_span two_fallback)
  have \<open>js ''Here: ["a"] and ["b"]'' \<noteq> js ''a''\<close>
    by (simp add: js_def)
  with c show ?thesis
    by (simp add: two_first two_first_items two_whole)
qed

text \<open>
  Claim C2, amended. The coercion tries three things in order. When the whole text parses as
  a JSON array, the result is its string elements, each normalized. Otherwise, when the text
  from the first opening bracket to the last closing bracket parses as a JSON array, the
  result is the same of that array. Otherwise the text is split at line breaks, bullets and
  dashes followed by white space, the fragments are trimmed, the empty ones dropped, the
  others normalized (and the first ten kept). The match of the second step is that span
  whenever the text has a closing bracket after its first opening bracket, and there is no
  match otherwise. The three texts of the specification give the three lists it names; a
  nested array inside other text is found by the second step; a text with two separate
  arrays falls through to the third; bullets split and are stripped; escapes, keywords and
  numbers inside an array are read as JSON.
\<close>

theorem coerceToStringArray_precedence:
  \<open>(\<forall>vs. JSON_parse text = Some (JArray vs) \<longrightarrow>
      coerceToStringArray text = map normalizeItem (string_elements vs)) \<and>
   (\<forall>m vs. array_items text = None \<and> bracket_match text = Some m \<and>
      JSON_parse m = Some (JArray vs) \<longrightarrow>
      coerceToStringArray text = map normalizeItem (string_elements vs)) \<and>
   (array_items text = None \<and>
      (bracket_match text = None \<or> (\<exists>m. bracket_match text = Some m \<and> array_items m = None)) \<longrightarrow>
      coerceToStringArray text =
        take 10 (map normalizeItem (filter (\<lambda>s. s \<noteq> []) (map trim (split_lines text))))) \<and>
   (\<forall>pre mid post. 0x5B \<notin> set pre \<and> 0x5D \<notin> set post \<longrightarrow>
      bracket_match (pre @ [0x5B] @ mid @ [0x5D] @ post) = Some ([0x5B] @ mid @ [0x5D]) \<and>
      bracket_match pre = None \<and>
      bracket_match (pre @ [0x5B] @ post) = None) \<and>
   coerceToStringArray (js ''["A","B"]'') = [js ''A'', js ''B''] \<and>
   coerceToStringArray (js ''Intro: ["1. Landed on the moon", "- Cured a disease"]'') =
     [js ''Landed on the moon'', js ''Cured a disease''] \<and>
   coerceToStringArray (js ''1. First'' @ [0x0A] @ js ''2. Second'' @ [0x0A] @ js ''3. Third'') =
     [js ''First'', js ''Second'', js ''Third''] \<and>
   coerceToStringArray (js ''Result: [["x"], "b"] done'') = [js ''b''] \<and>
   coerceToStringArray (js ''Here: ["a"] and ["b"]'') = [js ''Here: ["a"] and ["b"]''] \<and>
   coerceToStringArray ([0x2022] @ js '' One '' @ [0x2022] @ js '' Two'') =
     [js ''One'', js ''Two''] \<and>
   coerceToStringArray (js ''["x'' @ [0x5C] @ js ''"y", true, null, "'' @ [0x5C] @ js ''u0041", "''
      @ [0x2022] @ js '' z"]'') =
     [js ''x"y'', js ''A'', js ''z'']\<close>
proof (intro conjI allI impI)
  fix vs assume "JSON_parse text = Some (JArray vs)"
  then show "coerceToStringArray text = map normalizeItem (string_elements vs)"
    by (simp add: coerce_first array_items_parse)
next
  fix m vs
  assume "array_items text = None \<and> bracket_match text = Some m \<and>
      JSON_parse m = Some (JArray vs)"
  then show "coerceToStringArray text = map normalizeItem (string_elements vs)"
    using coerce_second [of "text" m] by (simp add: array_items_parse)
next
  assume "array_items text = None \<and>
      (bracket_match text = None \<or> (\<exists>m. bracket_match text = Some m \<and> array_items m = None))"
  then show "coerceToStringArray text =
        take 10 (map normalizeItem (filter (\<lambda>s. s \<noteq> []) (map trim (split_lines text))))"
    using coerce_third [of "text"] by (simp add: fallback_items_def)
next
  fix pre mid post :: jsstring
  assume a: "0x5B \<notin> set pre \<and> 0x5D \<notin> set post"
  then show "bracket_match (pre @ [0x5B] @ mid @ [0x5D] @ post) = Some ([0x5B] @ mid @ [0x5D])"
    by (intro bracket_match_span) simp_all
  from a show "bracket_match pre = None"
    by (intro bracket_match_none(1) [of pre post]) simp_all
  from a show "bracket_match (pre @ [0x5B] @ post) = None"
    by (intro bracket_match_none(2)) simp_all
next
  show \<open>coerceToStringArray (js ''["A","B"]'') = [js ''A'', js ''B'']\<close>
    by (rule coerce_first) (rule array_items_AB)
next
  show \<open>coerceToStringArray (js ''Intro: ["1. Landed on the moon", "- Cured a disease"]'') =
     [js ''Landed on the moon'', js ''Cured a disease'']\<close>
    by (rule coerce_second) (rule intro_whole intro_match intro_items)+
next
  show "coerceToStringArray (js ''1. First'' @ [0x0A] @ js ''2. Second'' @ [0x0A] @ js ''3. Third'') =
     [js ''First'', js ''Second'', js ''Third'']"
    by (simp only: coerce_third [OF lines_whole disjI1 [OF lines_match]] lines_fallback)
next
  show \<open>coerceToStringArray (js ''Result: [["x"], "b"] done'') = [js ''b'']\<close>
    by (rule coerce_second) (rule nested_whole nested_match nested_items)+
next
  show \<open>coerceToStringArray (js ''Here: ["a"] and ["b"]'') = [js ''Here: ["a"] and ["b"]'']\<close>
    using coerce_third [OF two_whole] by (simp add: two_match two_span two_fallback)
next
  show "coerceToStringArray ([0x2022] @ js '' One '' @ [0x2022] @ js '' Two'') =
     [js ''One'', js ''Two'']"
    by (simp only: coerce_third [OF bullets_whole disjI1 [OF bullets_match]] bullets_fallback)
next
  show \<open>coerceToStringArray (js ''["x'' @ [0x5C] @ js ''"y", true, null, "'' @ [0x5C] @ js ''u0041", "''
      @ [0x2022] @ js '' z"]'') =
     [js ''x"y'', js ''A'', js ''z'']\<close>
    by (rule coerce_first) (rule escapes_items)
qed

theorem coerceToStringArray_precedence_witness:
  \<open>coerceToStringArray (js ''Top: ["1. A", 7, "B"] end'') = [js ''A'', js ''B'']\<close>
  using coerceToStringArray_precedence [of \<open>js ''Top: ["1. A", 7, "B"] end''\<close>]
  by (simp add: top_whole top_match parse_AB normalize_1A normalize_B)

section \<open>Claim C3: at most five items, at least one\<close>

text \<open>
  Claim C3. Whatever the upstream text and whichever attempt of the coercion produced the
  items, a response with status 200 carries between 1 and 5 items and every cache entry
  holds between 1 and 5 items: one request keeps a cache with that property in it, and so
  it holds after every request of any sequence served from the empty cache.
\<close>

theorem items_between_one_and_five:
  "(cache_bounded cache \<longrightarrow>
      cache_bounded (cacheAfter (GET env up cache req)) \<and>
      reply_bounded (reply (GET env up cache req))) \<and>
   (\<forall>out \<in> set (serve Map.empty calls).
      cache_bounded (cacheAfter out) \<and> reply_bounded (reply out))"
proof (intro conjI impI ballI)
  assume "cache_bounded cache"
  then show "cache_bounded (cacheAfter (GET env up cache req))"
    "reply_bounded (reply (GET env up cache req))"
    using GET_bounded by blast+
next
  fix out assume "out \<in> set (serve Map.empty calls)"
  moreover have "cache_bounded Map.empty" by (simp add: cache_bounded_def)
  ultimately show "cache_bounded (cacheAfter out)" "reply_bounded (reply out)"
    using serve_bounded by blast+
qed

theorem items_between_one_and_five_witness:
  \<open>cache_bounded (cacheAfter (GET \<lparr>now = 1000, apiKey = Some (js ''k'')\<rparr>
       (Ok (Some (js ''["A","B"]''))) Map.empty
       \<lparr>yearParam = Some (js ''1969''), forceParam = None\<rparr>)) \<and>
   reply_bounded (reply (GET \<lparr>now = 1000, apiKey = Some (js ''k'')\<rparr>
       (Ok (Some (js ''["A","B"]''))) Map.empty
       \<lparr>yearParam = Some (js ''1969''), forceParam = None\<rparr>))\<close>
proof -
  have "cache_bounded Map.empty" by (simp add: cache_bounded_def)
  then show ?thesis
    using items_between_one_and_five
      [of Map.empty "\<lparr>now = 1000, apiKey = Some (js ''k'')\<rparr>" \<open>Ok (Some (js ''["A","B"]''))\<close>
          "\<lparr>yearParam = Some (js ''1969''), forceParam = None\<rparr>" "[]"]
    by simp
qed

section \<open>Claim C4: forced refresh\<close>

text \<open>
  Claim C4. For a valid year, a request with \<^verbatim>\<open>force\<close> set to "1" or "true" is answered
  without looking at the cache: the response and the upstream call are the same whatever
  the cache holds, the upstream call is made whenever the credential is set, and when the
  upstream text is not empty and its parse is not empty the entry of the year is
  overwritten with the fresh items, which are also the answer.
\<close>

theorem GET_force:
  assumes "requested_year req = Number y" and "0 \<le> y" and "forced req"
  shows "(\<forall>cache'. reply (GET env up cache req) = reply (GET env up cache' req) \<and>
            upstreamCall (GET env up cache req) = upstreamCall (GET env up cache' req)) \<and>
         (\<forall>key. apiKey env = Some key \<and> key \<noteq> [] \<longrightarrow>
            upstreamCall (GET env up cache req) = Some \<lparr>promptYear = y, keyHeader = key\<rparr>) \<and>
         (\<forall>key rawText. apiKey env = Some key \<and> key \<noteq> [] \<and> up = Ok (Some rawText) \<and>
            rawText \<noteq> [] \<and> take 5 (coerceToStringArray rawText) \<noteq> [] \<longrightarrow>
            GET env up cache req =
              \<lparr>reply = \<lparr>status = 200, body = Highlights y (take 5 (coerceToStringArray rawText)),
                         cacheControl = Some ''public, max-age=0, s-maxage=86400''\<rparr>,
               cacheAfter = cache(y \<mapsto>
                 \<lparr>at = now env, items = take 5 (coerceToStringArray rawText)\<rparr>),
               upstreamCall = Some \<lparr>promptYear = y, keyHeader = key\<rparr>\<rparr>)"
proof -
  have r: "GET env up c req = refresh env up c y" for c
    using assms by (intro GET_refresh) simp_all
  show ?thesis
  proof (intro conjI allI impI)
    fix cache'
    show "reply (GET env up cache req) = reply (GET env up cache' req)"
      "upstreamCall (GET env up cache req) = upstreamCall (GET env up cache' req)"
      using refresh_reply_cache_free [of env up cache y cache'] by (simp_all add: r)
  next
    fix key assume "apiKey env = Some key \<and> key \<noteq> []"
    then show "upstreamCall (GET env up cache req) = Some \<lparr>promptYear = y, keyHeader = key\<rparr>"
      by (simp add: r refresh_calls)
  next
    fix key rawText
    assume a: "apiKey env = Some key \<and> key \<noteq> [] \<and> up = Ok (Some rawText) \<and>
            rawText \<noteq> [] \<and> take 5 (coerceToStringArray rawText) \<noteq> []"
    have "GET env up cache req = refresh env (Ok (Some rawText)) cache y"
      using a r [of cache] by simp
    with a show "GET env up cache req =
              \<lparr>reply = \<lparr>status = 200, body = Highlights y (take 5 (coerceToStringArray rawText)),
                         cacheControl = Some ''public, max-age=0, s-maxage=86400''\<rparr>,
               cacheAfter = cache(y \<mapsto>
                 \<lparr>at = now env, items = take 5 (coerceToStringArray rawText)\<rparr>),
               upstreamCall = Some \<lparr>promptYear = y, keyHeader = key\<rparr>\<rparr>"
      using refresh_success [of env key rawText cache y]
      by (simp add: items_response_def)
  qed
qed

theorem GET_force_witness:
  \<open>GET \<lparr>now = 1000, apiKey = Some (js ''k'')\<rparr> (Ok (Some (js ''["A","B"]'')))
       (Map.empty(1969 \<mapsto> \<lparr>at = 900, items = [js ''Old'']\<rparr>))
       \<lparr>yearParam = Some (js ''1969''), forceParam = Some (js ''true'')\<rparr> =
    \<lparr>reply = \<lparr>status = 200, body = Highlights 1969 [js ''A'', js ''B''],
               cacheControl = Some ''public, max-age=0, s-maxage=86400''\<rparr>,
     cacheAfter = Map.empty(1969 \<mapsto> \<lparr>at = 1000, items = [js ''A'', js ''B'']\<rparr>),
     upstreamCall = Some \<lparr>promptYear = 1969, keyHeader = js ''k''\<rparr>\<rparr>\<close>
  using GET_force [of "\<lparr>yearParam = Some (js ''1969''), forceParam = Some (js ''true'')\<rparr>" 1969
      "\<lparr>now = 1000, apiKey = Some (js ''k'')\<rparr>" \<open>Ok (Some (js ''["A","B"]''))\<close>
      "Map.empty(1969 \<mapsto> \<lparr>at = 900, items = [js ''Old'']\<rparr>)"]
  by (simp add: year_1969 forced_true coerce_AB js_nonempty)

section \<open>Claim C5: invalid years\<close>

text \<open>
  Claim C5, as the code has it. The claim as stated fails: the handler reads the year with
  \<^verbatim>\<open>Number.parseInt\<close>, which stops at the first character that is not a digit, so the
  parameter "12abc" is served as the year 12, with an upstream call and a cache write.
\<close>

theorem GET_year_prefix_counterexample:
  \<open>GET \<lparr>now = 1000, apiKey = Some (js ''k'')\<rparr> (Ok (Some (js ''["A","B"]''))) Map.empty
       \<lparr>yearParam = Some (js ''12abc''), forceParam = None\<rparr> =
    \<lparr>reply = \<lparr>status = 200, body = Highlights 12 [js ''A'', js ''B''],
               cacheControl = Some ''public, max-age=0, s-maxage=86400''\<rparr>,
     cacheAfter = Map.empty(12 \<mapsto> \<lparr>at = 1000, items = [js ''A'', js ''B'']\<rparr>),
     upstreamCall = Some \<lparr>promptYear = 12, keyHeader = js ''k''\<rparr>\<rparr>\<close>
proof -
  have "GET \<lparr>now = 1000, apiKey = Some (js ''k'')\<rparr> (Ok (Some (js ''[\"A\",\"B\"]''))) Map.empty
       \<lparr>yearParam = Some (js ''12abc''), forceParam = None\<rparr> =
     refresh \<lparr>now = 1000, apiKey = Some (js ''k'')\<rparr> (Ok (Some (js ''[\"A\",\"B\"]''))) Map.empty 12"
    by (rule GET_refresh) (simp_all add: year_12abc)
  also have "\<dots> = \<lparr>reply = items_response 12 [js ''A'', js ''B''],
     cacheAfter = Map.empty(12 \<mapsto> \<lparr>at = 1000, items = [js ''A'', js ''B'']\<rparr>),
     upstreamCall = Some \<lparr>promptYear = 12, keyHeader = js ''k''\<rparr>\<rparr>"
    using refresh_success [of "\<lparr>now = 1000, apiKey = Some (js ''k'')\<rparr>" "js ''k''"
        "js ''[\"A\",\"B\"]''" Map.empty 12]
    by (simp add: coerce_AB js_nonempty)
  finally show ?thesis by (simp add: items_response_def)
qed

text \<open>
  Claim C5, amended. When the year parameter is missing, or its text after leading white
  space and an optional sign does not start with a decimal digit, or it starts with a minus
  sign and digits that are not all zero, or its leading digits are too many for a finite
  number, the answer is status 400 with the error "Invalid or missing year", no upstream
  call is made and the cache is left as it was. Every other request is not answered with
  400. A missing parameter and a text without any digit are among the rejected ones.
\<close>

theorem GET_rejects_year:
  "(year_rejected (yearParam req) \<longrightarrow>
      GET env up cache req =
        \<lparr>reply = \<lparr>status = 400, body = Error ''Invalid or missing year'', cacheControl = None\<rparr>,
         cacheAfter = cache, upstreamCall = None\<rparr>) \<and>
   (\<not> year_rejected (yearParam req) \<longrightarrow> status (reply (GET env up cache req)) \<noteq> 400) \<and>
   year_rejected None \<and>
   (\<forall>s. (\<forall>c \<in> set s. \<not> isDigit c) \<longrightarrow> year_rejected (Some s))"
proof (intro conjI impI allI)
  assume "year_rejected (yearParam req)"
  then have "case requested_year req of Number y \<Rightarrow> y < 0 | _ \<Rightarrow> True"
    by (simp add: year_rejected_iff)
  then show "GET env up cache req =
        \<lparr>reply = \<lparr>status = 400, body = Error ''Invalid or missing year'', cacheControl = None\<rparr>,
         cacheAfter = cache, upstreamCall = None\<rparr>"
    by (simp add: GET_invalid error_response_def)
next
  assume "\<not> year_rejected (yearParam req)"
  then have v: "\<exists>y. requested_year req = Number y \<and> 0 \<le> y"
    by (auto simp: year_rejected_iff split: jsnumber.splits)
  from GET_cases [of req env up cache]
  show "status (reply (GET env up cache req)) \<noteq> 400"
  proof (elim disjE exE conjE)
    assume "\<not> (\<exists>y. requested_year req = Number y \<and> 0 \<le> y)"
    with v show ?thesis by simp
  next
    fix y cached
    assume "GET env up cache req =
        \<lparr>reply = items_response y (items cached), cacheAfter = cache, upstreamCall = None\<rparr>"
    then show ?thesis by (simp add: items_response_def)
  next
    fix y assume "GET env up cache req = refresh env up cache y"
    then show ?thesis by (simp add: refresh_status)
  qed
next
  show "year_rejected None" by (rule year_rejected_missing)
next
  fix s assume "\<forall>c \<in> set s. \<not> isDigit c"
  then show "year_rejected (Some s)" by (rule year_rejected_no_digit)
qed

theorem GET_rejects_year_witness:
  "GET \<lparr>now = 1000, apiKey = Some (js ''k'')\<rparr> (Ok (Some (js ''x''))) Map.empty
       \<lparr>yearParam = Some (js ''-5''), forceParam = None\<rparr> =
     \<lparr>reply = \<lparr>status = 400, body = Error ''Invalid or missing year'', cacheControl = None\<rparr>,
      cacheAfter = Map.empty, upstreamCall = None\<rparr>"
  using GET_rejects_year [of "\<lparr>yearParam = Some (js ''-5''), forceParam = None\<rparr>"
      "\<lparr>now = 1000, apiKey = Some (js ''k'')\<rparr>" "Ok (Some (js ''x''))" Map.empty]
  by (simp add: year_minus5)

section \<open>Claim C6: empty and blank upstream text\<close>

text \<open>
  Claim C6, as the code has it. The claim as stated fails for a text of white space only: the
  test \<^verbatim>\<open>!rawText\<close> lets it through, the coercion finds nothing in it, and the answer is
  the error "Empty content", not "No content returned".
\<close>

theorem GET_blank_payload_counterexample:
  "GET \<lparr>now = 1000, apiKey = Some (js ''k'')\<rparr> (Ok (Some (js ''   ''))) Map.empty
       \<lparr>yearParam = Some (js ''1969''), forceParam = None\<rparr> =
     \<lparr>reply = \<lparr>status = 502, body = Error ''Empty content'', cacheControl = None\<rparr>,
      cacheAfter = Map.empty,
      upstreamCall = Some \<lparr>promptYear = 1969, keyHeader = js ''k''\<rparr>\<rparr>"
proof -
  have "GET \<lparr>now = 1000, apiKey = Some (js ''k'')\<rparr> (Ok (Some (js ''   ''))) Map.empty
       \<lparr>yearParam = Some (js ''1969''), forceParam = None\<rparr> =
     refresh \<lparr>now = 1000, apiKey = Some (js ''k'')\<rparr> (Ok (Some (js ''   ''))) Map.empty 1969"
    by (rule GET_refresh) (simp_all add: year_1969)
  also have "\<dots> = \<lparr>reply = error_response 502 ''Empty content'', cacheAfter = Map.empty,
      upstreamCall = Some \<lparr>promptYear = 1969, keyHeader = js ''k''\<rparr>\<rparr>"
    by (rule refresh_empty_content) (simp_all add: js_nonempty coerce_blank blank_spaces)
  finally show ?thesis by (simp add: error_response_def)
qed

text \<open>
  Claim C6, amended. On the refresh path with the credential set, an upstream response whose
  text is missing or empty is answered with status 502 and the error "No content returned";
  one whose text is not empty and consists of white space only is answered with status 502
  and the error "Empty content". In both cases nothing is written to the cache.
\<close>

theorem GET_blank_payload:
  assumes "requested_year req = Number y" and "0 \<le> y"
    and "forced req \<or> cache y = None \<or>
         (\<exists>cached. cache y = Some cached \<and> \<not> now env - at cached < CACHE_TTL_MS)"
    and "apiKey env = Some key" and "key \<noteq> []"
  shows "(up = Ok None \<or> up = Ok (Some []) \<longrightarrow>
           GET env up cache req =
             \<lparr>reply = \<lparr>status = 502, body = Error ''No content returned'', cacheControl = None\<rparr>,
              cacheAfter = cache,
              upstreamCall = Some \<lparr>promptYear = y, keyHeader = key\<rparr>\<rparr>) \<and>
         (\<forall>rawText. up = Ok (Some rawText) \<and> rawText \<noteq> [] \<and>
              (\<forall>c \<in> set rawText. isWhiteSpace c) \<longrightarrow>
           GET env up cache req =
             \<lparr>reply = \<lparr>status = 502, body = Error ''Empty content'', cacheControl = None\<rparr>,
              cacheAfter = cache,
              upstreamCall = Some \<lparr>promptYear = y, keyHeader = key\<rparr>\<rparr>)"
proof -
  have r: "GET env up cache req = refresh env up cache y"
    using assms(1-3) by (rule GET_refresh)
  show ?thesis
  proof (intro conjI allI impI)
    assume "up = Ok None \<or> up = Ok (Some [])"
    then show "GET env up cache req =
             \<lparr>reply = \<lparr>status = 502, body = Error ''No content returned'', cacheControl = None\<rparr>,
              cacheAfter = cache,
              upstreamCall = Some \<lparr>promptYear = y, keyHeader = key\<rparr>\<rparr>"
      unfolding r using refresh_no_content [OF assms(4,5), of up cache y]
      by (simp add: error_response_def)
  next
    fix rawText
    assume a: "up = Ok (Some rawText) \<and> rawText \<noteq> [] \<and> (\<forall>c \<in> set rawText. isWhiteSpace c)"
    then have "coerceToStringArray rawText = []" by (simp add: coerce_blank)
    with a have "refresh env up cache y =
        \<lparr>reply = error_response 502 ''Empty content'', cacheAfter = cache,
         upstreamCall = Some \<lparr>promptYear = y, keyHeader = key\<rparr>\<rparr>"
      using refresh_empty_content [OF assms(4,5), of rawText cache y] by simp
    then show "GET env up cache req =
             \<lparr>reply = \<lparr>status = 502, body = Error ''Empty content'', cacheControl = None\<rparr>,
              cacheAfter = cache,
              upstreamCall = Some \<lparr>promptYear = y, keyHeader = key\<rparr>\<rparr>"
      unfolding r by (simp add: error_response_def)
  qed
qed

theorem GET_blank_payload_witness:
  "GET \<lparr>now = 1000, apiKey = Some (js ''k'')\<rparr> (Ok (Some [0x20, 0x0A, 0xA0])) Map.empty
       \<lparr>yearParam = Some (js ''1969''), forceParam = None\<rparr> =
     \<lparr>reply = \<lparr>status = 502, body = Error ''Empty content'', cacheControl = None\<rparr>,
      cacheAfter = Map.empty,
      upstreamCall = Some \<lparr>promptYear = 1969, keyHeader = js ''k''\<rparr>\<rparr>"
  using GET_blank_payload [of "\<lparr>yearParam = Some (js ''1969''), forceParam = None\<rparr>" 1969
      Map.empty "\<lparr>now = 1000, apiKey = Some (js ''k'')\<rparr>" "js ''k''" "Ok (Some [0x20, 0x0A, 0xA0])"]
  by (simp add: year_1969 js_nonempty isWhiteSpace_def)

section \<open>Claim C7: missing credential\<close>

text \<open>
  Claim C7. A request with a valid year that is not answered from the cache (the refresh is
  forced, the cache has no entry for the year, or the entry is as old as the time to live or
  older) and finds the credential variable unset is answered with status 500 and the error
  "Server missing GEMINI_API_KEY"; no upstream call is made and the cache is left as it was.
\<close>

theorem GET_missing_credential:
  assumes "requested_year req = Number y" and "0 \<le> y"
    and "forced req \<or> cache y = None \<or>
         (\<exists>cached. cache y = Some cached \<and> \<not> now env - at cached < CACHE_TTL_MS)"
    and "apiKey env = None"
  shows "GET env up cache req =
    \<lparr>reply = error_response 500 ''Server missing GEMINI_API_KEY'',
     cacheAfter = cache, upstreamCall = None\<rparr>"
proof -
  have "GET env up cache req = refresh env up cache y"
    using assms(1-3) by (rule GET_refresh)
  with assms(4) show ?thesis by (simp add: refresh_no_key)
qed

theorem GET_missing_credential_witness:
  "GET \<lparr>now = 1000, apiKey = None\<rparr> (Ok (Some (js ''[]''))) Map.empty
       \<lparr>yearParam = Some (js ''1969''), forceParam = None\<rparr> =
    \<lparr>reply = \<lparr>status = 500, body = Error ''Server missing GEMINI_API_KEY'', cacheControl = None\<rparr>,
     cacheAfter = Map.empty, upstreamCall = None\<rparr>"
  using GET_missing_credential [of "\<lparr>yearParam = Some (js ''1969''), forceParam = None\<rparr>" 1969
      Map.empty "\<lparr>now = 1000, apiKey = None\<rparr>" "Ok (Some (js ''[]''))"]
  by (simp add: year_1969 error_response_def)

section \<open>Claim C8: the cap of the fallback\<close>

text \<open>
  Claim C8. When neither the whole text nor the bracketed part of it parses as a JSON array,
  the coercion returns the result of the fallback, which has at most 10 fragments. The
  results of the two JSON attempts have as many items as the array has strings, whatever
  their number: an array of 11 strings gives 11 items, while a text of 12 fragments gives
  10, of which the handler then keeps 5.
\<close>

theorem fallback_cap:
  \<open>(array_items text = None \<and> (\<forall>m. bracket_match text = Some m \<longrightarrow> array_items m = None) \<longrightarrow>
      coerceToStringArray text = fallback_items text \<and>
      length (coerceToStringArray text) \<le> 10) \<and>
   (\<forall>vs. JSON_parse text = Some (JArray vs) \<longrightarrow>
      length (coerceToStringArray text) = length (string_elements vs)) \<and>
   (\<forall>m vs. array_items text = None \<and> bracket_match text = Some m \<and>
      JSON_parse m = Some (JArray vs) \<longrightarrow>
      length (coerceToStringArray text) = length (string_elements vs)) \<and>
   length (coerceToStringArray (js ''["a","b","c","d","e","f","g","h","i","j","k"]'')) = 11 \<and>
   length (coerceToStringArray (js ''a - b - c - d - e - f - g - h - i - j - k - l'')) = 10 \<and>
   length (take 5 (coerceToStringArray (js ''a - b - c - d - e - f - g - h - i - j - k - l''))) = 5\<close>
proof (intro conjI allI impI)
  assume h: "array_items text = None \<and>
    (\<forall>m. bracket_match text = Some m \<longrightarrow> array_items m = None)"
  then have "bracket_match text = None \<or>
      (\<exists>m. bracket_match text = Some m \<and> array_items m = None)"
    by (cases "bracket_match text") simp_all
  with h show f: "coerceToStringArray text = fallback_items text"
    by (simp add: coerce_third)
  show "length (coerceToStringArray text) \<le> 10"
    unfolding f by (rule fallback_length)
next
  fix vs assume "JSON_parse text = Some (JArray vs)"
  then show "length (coerceToStringArray text) = length (string_elements vs)"
    by (simp add: coerce_first array_items_parse)
next
  fix m vs
  assume "array_items text = None \<and> bracket_match text = Some m \<and>
      JSON_parse m = Some (JArray vs)"
  then show "length (coerceToStringArray text) = length (string_elements vs)"
    using coerce_second [of "text" m] by (simp add: array_items_parse)
next
  show \<open>length (coerceToStringArray (js ''["a","b","c","d","e","f","g","h","i","j","k"]'')) = 11\<close>
    by (simp add: coerce_first [OF eleven_items])
next
  have t: "coerceToStringArray (js ''a - b - c - d - e - f - g - h - i - j - k - l'') =
      fallback_items (js ''a - b - c - d - e - f - g - h - i - j - k - l'')"
    using coerce_third [OF twelve_whole] by (simp add: twelve_match)
  show "length (coerceToStringArray (js ''a - b - c - d - e - f - g - h - i - j - k - l'')) = 10"
    by (simp add: t twelve_fallback)
  show "length (take 5 (coerceToStringArray (js ''a - b - c - d - e - f - g - h - i - j - k - l''))) = 5"
    by (simp add: t twelve_fallback)
qed

theorem fallback_cap_witness:
  "coerceToStringArray (js ''a - b - c - d - e - f - g - h - i - j - k - l'') =
     fallback_items (js ''a - b - c - d - e - f - g - h - i - j - k - l'') \<and>
   length (coerceToStringArray (js ''a - b - c - d - e - f - g - h - i - j - k - l'')) \<le> 10"
proof -
  have "array_items (js ''a - b - c - d - e - f - g - h - i - j - k - l'') = None \<and>
    (\<forall>m. bracket_match (js ''a - b - c - d - e - f - g - h - i - j - k - l'') = Some m \<longrightarrow>
       array_items m = None)"
    by (simp add: twelve_whole twelve_match)
  with fallback_cap [of "js ''a - b - c - d - e - f - g - h - i - j - k - l''"]
  show ?thesis by blast
qed

section \<open>Claim C9: stale responses in the fetch client\<close>

text \<open>
  Claim C9. In every state the component reaches from its mount, the settling of a request
  that is not the latest run of the effect, or that was started for a year other than the
  one now shown, changes neither the items, nor the status, nor the client cache; a
  settling that does change one of them belongs to the latest run, started for the year now
  shown. In particular, after the year changes from one year to another, nothing that
  happens to the request of the first year changes what is shown or cached, whatever
  happens in between.
\<close>

theorem stale_response_discarded:
  "(\<forall>i r d. Suc i < length (runs (run_events (mount y0) evs)) \<or>
        (i < length (runs (run_events (mount y0) evs)) \<and>
         runYear (runs (run_events (mount y0) evs) ! i) \<noteq> yearProp (run_events (mount y0) evs)) \<longrightarrow>
      visible (step (run_events (mount y0) evs) (FetchSettles i r)) =
        visible (run_events (mount y0) evs) \<and>
      visible (step (run_events (mount y0) evs) (JsonSettles i d)) =
        visible (run_events (mount y0) evs)) \<and>
   (\<forall>i r d. visible (step (run_events (mount y0) evs) (FetchSettles i r)) \<noteq>
        visible (run_events (mount y0) evs) \<or>
      visible (step (run_events (mount y0) evs) (JsonSettles i d)) \<noteq>
        visible (run_events (mount y0) evs) \<longrightarrow>
      Suc i = length (runs (run_events (mount y0) evs)) \<and>
      runYear (runs (run_events (mount y0) evs) ! i) = yearProp (run_events (mount y0) evs)) \<and>
   (\<forall>y2 r d. y0 \<noteq> y2 \<longrightarrow>
      visible (step (run_events (mount y0) (Render y2 # evs)) (FetchSettles 0 r)) =
        visible (run_events (mount y0) (Render y2 # evs)) \<and>
      visible (step (run_events (mount y0) (Render y2 # evs)) (JsonSettles 0 d)) =
        visible (run_events (mount y0) (Render y2 # evs)))"
proof -
  have stale: "visible (step (run_events (mount y) es) (FetchSettles i r)) =
        visible (run_events (mount y) es) \<and>
      visible (step (run_events (mount y) es) (JsonSettles i d)) =
        visible (run_events (mount y) es)"
    if "Suc i < length (runs (run_events (mount y) es)) \<or>
        (i < length (runs (run_events (mount y) es)) \<and>
         runYear (runs (run_events (mount y) es) ! i) \<noteq> yearProp (run_events (mount y) es))"
    for y es i r d
  proof -
    let ?s = "run_events (mount y) es"
    have inv: "only_latest_current ?s" by (rule run_events_current)
    from that have "i < length (runs ?s)" by auto
    with inv that have "\<not> isCurrent (runs ?s ! i)"
      by (auto simp: only_latest_current_def)
    then show ?thesis by (simp add: stale_fetch stale_json)
  qed
  have fresh: "Suc i = length (runs (run_events (mount y0) evs)) \<and>
      runYear (runs (run_events (mount y0) evs) ! i) = yearProp (run_events (mount y0) evs)"
    if "visible (step (run_events (mount y0) evs) (FetchSettles i r)) \<noteq>
        visible (run_events (mount y0) evs) \<or>
      visible (step (run_events (mount y0) evs) (JsonSettles i d)) \<noteq>
        visible (run_events (mount y0) evs)"
    for i r d
  proof -
    let ?s = "run_events (mount y0) evs"
    have inv: "only_latest_current ?s" by (rule run_events_current)
    from that have i: "i < length (runs ?s)"
      by (cases "i < length (runs ?s)") (auto simp: beyond_fetch)
    from that have "isCurrent (runs ?s ! i)"
      using stale_fetch [of ?s i r] stale_json [of ?s i d] by auto
    with inv i show ?thesis by (simp add: only_latest_current_def)
  qed
  show ?thesis
  proof (intro conjI allI impI)
    fix i r d
    assume "Suc i < length (runs (run_events (mount y0) evs)) \<or>
        (i < length (runs (run_events (mount y0) evs)) \<and>
         runYear (runs (run_events (mount y0) evs) ! i) \<noteq> yearProp (run_events (mount y0) evs))"
    from stale [OF this]
    show "visible (step (run_events (mount y0) evs) (FetchSettles i r)) =
        visible (run_events (mount y0) evs)"
      "visible (step (run_events (mount y0) evs) (JsonSettles i d)) =
        visible (run_events (mount y0) evs)"
      by simp_all
  next
    fix i r d
    assume "visible (step (run_events (mount y0) evs) (FetchSettles i r)) \<noteq>
        visible (run_events (mount y0) evs) \<or>
      visible (step (run_events (mount y0) evs) (JsonSettles i d)) \<noteq>
        visible (run_events (mount y0) evs)"
    from fresh [OF this]
    show "Suc i = length (runs (run_events (mount y0) evs))"
      "runYear (runs (run_events (mount y0) evs) ! i) = yearProp (run_events (mount y0) evs)"
      by simp_all
  next
    fix y2 r d
    assume "y0 \<noteq> y2"
    then have "Suc 0 < length (runs (run_events (mount y0) (Render y2 # evs)))"
      by (rule two_runs)
    then have "visible (step (run_events (mount y0) (Render y2 # evs)) (FetchSettles 0 r)) =
        visible (run_events (mount y0) (Render y2 # evs)) \<and>
      visible (step (run_events (mount y0) (Render y2 # evs)) (JsonSettles 0 d)) =
        visible (run_events (mount y0) (Render y2 # evs))"
      by (intro stale) simp
    then show "visible (step (run_events (mount y0) (Render y2 # evs)) (FetchSettles 0 r)) =
        visible (run_events (mount y0) (Render y2 # evs))"
      "visible (step (run_events (mount y0) (Render y2 # evs)) (JsonSettles 0 d)) =
        visible (run_events (mount y0) (Render y2 # evs))"
      by simp_all
  qed
qed

theorem stale_response_discarded_witness:
  "visible (run_events (mount 1969)
      [Render 1970, FetchSettles 0 (FetchResponse True),
       JsonSettles 0 (JsonData (Some [js ''Moon landing'']))]) =
     ([], Loading, Map.empty)"
proof -
  have e: "run_events (mount 1969)
      [Render 1970, FetchSettles 0 (FetchResponse True),
       JsonSettles 0 (JsonData (Some [js ''Moon landing'']))] =
    step (run_events (mount 1969) [Render 1970, FetchSettles 0 (FetchResponse True)])
      (JsonSettles 0 (JsonData (Some [js ''Moon landing''])))"
    by (simp add: run_events_def)
  have "(1969::int) \<noteq> 1970" by simp
  with stale_response_discarded [of 1969 "[FetchSettles 0 (FetchResponse True)]"]
  have "visible (step (run_events (mount 1969) [Render 1970, FetchSettles 0 (FetchResponse True)])
        (JsonSettles 0 (JsonData (Some [js ''Moon landing''])))) =
      visible (run_events (mount 1969) [Render 1970, FetchSettles 0 (FetchResponse True)])"
    by blast
  then show ?thesis
    by (simp only: e after_change)
qed

section \<open>Claim C10: cache hits need no credential\<close>

text \<open>
  Claim C10. A request for a valid year whose cache entry is younger than the time to live,
  with no forced refresh, is answered with status 200 and the cached items also when the
  credential variable is unset; and whenever the answer is the missing-credential error,
  the request was not one the cache answers.
\<close>

theorem GET_cached_without_credential:
  "(\<forall>y cached. requested_year req = Number y \<and> 0 \<le> y \<and> cache y = Some cached \<and>
       now env - at cached < CACHE_TTL_MS \<and> \<not> forced req \<and> apiKey env = None \<longrightarrow>
       GET env up cache req =
         \<lparr>reply = \<lparr>status = 200, body = Highlights y (items cached),
                    cacheControl = Some ''public, max-age=0, s-maxage=86400''\<rparr>,
          cacheAfter = cache, upstreamCall = None\<rparr>) \<and>
   (reply (GET env up cache req) = error_response 500 ''Server missing GEMINI_API_KEY'' \<longrightarrow>
       \<not> served_from_cache env cache req)"
proof (intro conjI allI impI)
  fix y cached
  assume "requested_year req = Number y \<and> 0 \<le> y \<and> cache y = Some cached \<and>
       now env - at cached < CACHE_TTL_MS \<and> \<not> forced req \<and> apiKey env = None"
  then show "GET env up cache req =
         \<lparr>reply = \<lparr>status = 200, body = Highlights y (items cached),
                    cacheControl = Some ''public, max-age=0, s-maxage=86400''\<rparr>,
          cacheAfter = cache, upstreamCall = None\<rparr>"
    by (simp add: GET_hit items_response_def)
next
  assume h: "reply (GET env up cache req) = error_response 500 ''Server missing GEMINI_API_KEY''"
  show "\<not> served_from_cache env cache req"
  proof
    assume "served_from_cache env cache req"
    then obtain y cached where "requested_year req = Number y" "0 \<le> y" "cache y = Some cached"
      "now env - at cached < CACHE_TTL_MS" "\<not> forced req"
      by (auto simp: served_from_cache_def split: jsnumber.splits option.splits)
    then have "reply (GET env up cache req) = items_response y (items cached)"
      by (simp add: GET_hit)
    with h show False by (simp add: items_response_def error_response_def)
  qed
qed

theorem GET_cached_without_credential_witness:
  "GET \<lparr>now = 1000, apiKey = None\<rparr> Rejects
       (Map.empty(1969 \<mapsto> \<lparr>at = 0, items = [js ''Moon landing'']\<rparr>))
       \<lparr>yearParam = Some (js ''1969''), forceParam = None\<rparr> =
    \<lparr>reply = \<lparr>status = 200, body = Highlights 1969 [js ''Moon landing''],
               cacheControl = Some ''public, max-age=0, s-maxage=86400''\<rparr>,
     cacheAfter = Map.empty(1969 \<mapsto> \<lparr>at = 0, items = [js ''Moon landing'']\<rparr>),
     upstreamCall = None\<rparr>"
  using GET_cached_without_credential
    [of "\<lparr>yearParam = Some (js ''1969''), forceParam = None\<rparr>"
        "Map.empty(1969 \<mapsto> \<lparr>at = 0, items = [js ''Moon landing'']\<rparr>)"
        "\<lparr>now = 1000, apiKey = None\<rparr>" Rejects]
  by (simp add: year_1969 not_forced_None CACHE_TTL_MS_def)

end
